theory Spec2Isabelle
  imports Main "HOL-Library.Word" "HOL-Library.Sublist" "HOL-Library.Multiset"
    "HOL-Library.Char_ord" "HOL-Library.List_Lexorder"
begin

section \<open>Constants of \<^verbatim>\<open>query_ingestion.py\<close>\<close>

definition MAX_FILE_SIZE :: nat where
  "MAX_FILE_SIZE = 10 * 1024 * 1024"

definition MAX_DIRECTORY_DEPTH :: nat where
  "MAX_DIRECTORY_DEPTH = 20"

definition MAX_FILES :: nat where
  "MAX_FILES = 10000"

definition MAX_TOTAL_SIZE_BYTES :: nat where
  "MAX_TOTAL_SIZE_BYTES = 500 * 1024 * 1024"

section \<open>Paths\<close>

text \<open>
  A \<^verbatim>\<open>pathlib.Path\<close> of the scan is an absolute POSIX path; it is modelled by the list of
  its components below the root, so \<^verbatim>\<open>/repo/src/a.py\<close> is \<open>[''repo'', ''src'', ''a.py'']\<close>.
  Strings are \<open>char list\<close>; names are compared by character code, as Python compares
  \<^verbatim>\<open>str\<close> values.
\<close>

type_synonym path = "string list"

type_synonym byte = "8 word"

definition path_name :: "path \<Rightarrow> string" where
  \<comment> \<open>\<^verbatim>\<open>path.name\<close>: the final component, empty for the root\<close>
  "path_name p = (if p = [] then [] else last p)"

fun join_slash :: "string list \<Rightarrow> string" where
  "join_slash [] = []"
| "join_slash [c] = c"
| "join_slash (c # d # cs) = c @ ''/'' @ join_slash (d # cs)"

definition rel_str :: "path \<Rightarrow> string" where
  \<comment> \<open>\<^verbatim>\<open>str\<close> of a relative path; the empty relative path prints as a dot\<close>
  "rel_str rel = (if rel = [] then ''.'' else join_slash rel)"

definition relative_to :: "path \<Rightarrow> path \<Rightarrow> path option" where
  \<comment> \<open>\<^verbatim>\<open>path.relative_to(base)\<close>; \<open>None\<close> stands for the \<^verbatim>\<open>ValueError\<close>\<close>
  "relative_to p base = (if prefix base p then Some (drop (length base) p) else None)"

definition path_suffix :: "path \<Rightarrow> string" where
  \<comment> \<open>\<^verbatim>\<open>path.suffix\<close>: from the last dot of the name on, when that dot is neither the
      first nor the last character\<close>
  "path_suffix p =
     (let nm = path_name p; ext = rev (takeWhile (\<lambda>c. c \<noteq> CHR ''.'') (rev nm))
      in if CHR ''.'' \<in> set nm \<and> Suc (length ext) < length nm \<and> ext \<noteq> []
         then CHR ''.'' # ext else [])"

definition startswith_dot :: "string \<Rightarrow> bool" where
  \<comment> \<open>\<^verbatim>\<open>name.startswith(".")\<close>\<close>
  "startswith_dot s = (case s of [] \<Rightarrow> False | c # _ \<Rightarrow> c = CHR ''.'')"

definition lower_char :: "char \<Rightarrow> char" where
  "lower_char c =
     (if CHR ''A'' \<le> c \<and> c \<le> CHR ''Z'' then char_of (of_char c + (32::nat)) else c)"

definition lower :: "string \<Rightarrow> string" where
  \<comment> \<open>\<^verbatim>\<open>str.lower()\<close> on the characters of a name\<close>
  "lower s = map lower_char s"

section \<open>The environment: file system and library functions\<close>

datatype kind = RegularFile | Directory

text \<open>
  Every primitive the walk asks of the operating system or of a library is a field of the
  environment, so that the theorems hold for every file system, cyclic or not.
  \<open>kind_of\<close> is what \<^verbatim>\<open>is_file()\<close>, \<^verbatim>\<open>is_dir()\<close> and \<^verbatim>\<open>exists()\<close> read (they follow links),
  \<open>resolve\<close> is the non-strict \<^verbatim>\<open>Path.resolve()\<close>, \<open>listdir\<close> is the listing behind
  \<^verbatim>\<open>iterdir()\<close> with \<open>None\<close> for a \<^verbatim>\<open>PermissionError\<close>, \<open>read_bytes\<close> is the content of a
  file with \<open>None\<close> for an \<^verbatim>\<open>OSError\<close>, \<open>fnmatch\<close> is \<^verbatim>\<open>fnmatch.fnmatch\<close>,
  \<open>decode_utf8\<close> is the decoding that ignores malformed bytes, \<open>process_notebook\<close> is the
  notebook converter of \<^verbatim>\<open>gitingest.notebook_utils\<close>, \<open>strerror\<close> is the message of the
  \<^verbatim>\<open>OSError\<close> of a path, \<open>encode_len\<close> is the length of the tiktoken encoding with \<open>None\<close>
  for its errors, and \<open>fmt_1f n d\<close> is the text of \<^verbatim>\<open>f"{n / d:.1f}"\<close>.
  The size of a file is asked of \<open>st_size\<close>, which need not be the length of its bytes.
\<close>

record env =
  is_symlink :: "path \<Rightarrow> bool"
  resolve :: "path \<Rightarrow> path"
  kind_of :: "path \<Rightarrow> kind option"
  st_size :: "path \<Rightarrow> nat"
  listdir :: "path \<Rightarrow> string list option"
  read_bytes :: "path \<Rightarrow> byte list option"
  fnmatch :: "string \<Rightarrow> string \<Rightarrow> bool"
  decode_utf8 :: "byte list \<Rightarrow> string"
  process_notebook :: "path \<Rightarrow> string"
  strerror :: "path \<Rightarrow> string"
  encode_len :: "string \<Rightarrow> nat option"
  fmt_1f :: "nat \<Rightarrow> nat \<Rightarrow> string"

definition is_file :: "env \<Rightarrow> path \<Rightarrow> bool" where
  "is_file E p = (kind_of E p = Some RegularFile)"

definition is_dir :: "env \<Rightarrow> path \<Rightarrow> bool" where
  "is_dir E p = (kind_of E p = Some Directory)"

definition iterdir :: "env \<Rightarrow> path \<Rightarrow> path list option" where
  "iterdir E p = map_option (map (\<lambda>n. p @ [n])) (listdir E p)"

section \<open>The query and the tree model\<close>

text \<open>
  The query dictionary, with the keys this module reads. A key that the code tests with
  \<^verbatim>\<open>in\<close> or for truth is an option; \<open>subpath\<close> is always present, since
  \<^verbatim>\<open>run_ingest_query\<close> indexes it unconditionally.
\<close>

record query =
  local_path :: path
  subpath :: string
  include_patterns :: "string list"
  ignore_patterns :: "string list"
  max_file_size :: nat
  slug :: string
  user_name :: "string option"
  repo_name :: string
  commit :: "string option"
  branch :: "string option"

text \<open>
  A node dictionary is a file node or a directory node, told apart by its \<^verbatim>\<open>"type"\<close> key.
  The \<^verbatim>\<open>"path"\<close> key holds \<^verbatim>\<open>str(path)\<close>, which \<^verbatim>\<open>Path(...)\<close> reads back unchanged; the model
  stores the path itself.
\<close>

datatype node =
    FileNode (name: string) (nsize: nat) (content: string) (npath: path)
  | DirNode (name: string) (nsize: nat) (children: "node list") (file_count: nat)
      (dir_count: nat) (npath: path) (ignore_content: bool)

record stats =
  total_files :: nat
  total_size :: nat

datatype exn = AlreadyVisitedError | MaxFileSizeReachedError | MaxFilesReachedError

section \<open>Pattern filter\<close>

definition should_include :: "env \<Rightarrow> path \<Rightarrow> path \<Rightarrow> string list \<Rightarrow> bool" where
  "should_include E p base_path include_pats =
     (case relative_to p base_path of
        None \<Rightarrow> False
      | Some rel_path \<Rightarrow> list_ex (\<lambda>pattern. fnmatch E (rel_str rel_path) pattern) include_pats)"

definition should_exclude :: "env \<Rightarrow> path \<Rightarrow> path \<Rightarrow> string list \<Rightarrow> bool" where
  "should_exclude E p base_path ignore_pats =
     (case relative_to p base_path of
        None \<Rightarrow> True
      | Some rel_path \<Rightarrow>
          list_ex (\<lambda>pattern. pattern \<noteq> [] \<and> fnmatch E (rel_str rel_path) pattern) ignore_pats)"

section \<open>Safety guard and content classifier\<close>

definition is_safe_symlink :: "env \<Rightarrow> path \<Rightarrow> path \<Rightarrow> bool" where
  \<comment> \<open>\<^verbatim>\<open>base_resolved in target_path.parents or target_path == base_resolved\<close>; the
      handler of the source is for a failing \<^verbatim>\<open>resolve()\<close>, which the non-strict
      \<open>resolve\<close> of the environment never is\<close>
  "is_safe_symlink E symlink_path base_path =
     (let target_path = resolve E symlink_path; base_resolved = resolve E base_path
      in strict_prefix base_resolved target_path \<or> target_path = base_resolved)"

definition text_chars :: "byte list" where
  \<comment> \<open>\<^verbatim>\<open>bytes([7, 8, 9, 10, 12, 13, 27] + list(range(0x20, 0x100)))\<close>\<close>
  "text_chars = [7, 8, 9, 10, 12, 13, 27] @ map of_nat [0x20 ..< 0x100]"

definition is_text_file :: "env \<Rightarrow> path \<Rightarrow> bool" where
  \<comment> \<open>\<^verbatim>\<open>chunk.translate(None, delete)\<close> removes the bytes of \<open>delete\<close>; a byte string is
      true when it is not empty\<close>
  "is_text_file E file_path =
     (case read_bytes E file_path of
        None \<Rightarrow> False
      | Some bs \<Rightarrow>
          (let chunk = take 1024 bs
           in \<not> (filter (\<lambda>b. b \<notin> set text_chars) chunk \<noteq> [])))"

definition read_file_content :: "env \<Rightarrow> path \<Rightarrow> string" where
  \<comment> \<open>the notebook test comes first; \<open>strerror\<close> is the text of the \<^verbatim>\<open>OSError\<close>\<close>
  "read_file_content E file_path =
     (if path_suffix file_path = ''.ipynb'' then process_notebook E file_path
      else (case read_bytes E file_path of
              None \<Rightarrow> ''Error reading file: '' @ strerror E file_path
            | Some bs \<Rightarrow> decode_utf8 E bs))"

text \<open>
  The allow-list as the specification words it: tab, newline, carriage return, form feed,
  escape and the printable range, read as every byte from the space on.
\<close>

definition spec_allowed :: "byte \<Rightarrow> bool" where
  "spec_allowed b = (b = 9 \<or> b = 10 \<or> b = 13 \<or> b = 12 \<or> b = 27 \<or> 0x20 \<le> b)"

section \<open>Ordering of children\<close>

definition is_file_node :: "node \<Rightarrow> bool" where
  "is_file_node n = (case n of FileNode _ _ _ _ \<Rightarrow> True | _ \<Rightarrow> False)"

definition is_dir_node :: "node \<Rightarrow> bool" where
  "is_dir_node n = (case n of DirNode _ _ _ _ _ _ _ \<Rightarrow> True | _ \<Rightarrow> False)"

definition sort_children :: "node list \<Rightarrow> node list" where
  "sort_children cs =
     (let files = filter is_file_node cs;
          directories = filter is_dir_node cs;
          readme_files = filter (\<lambda>f. lower (name f) = ''readme.md'') files;
          other_files = filter (\<lambda>f. lower (name f) \<noteq> ''readme.md'') files;
          regular_files = filter (\<lambda>f. \<not> startswith_dot (name f)) other_files;
          hidden_files = filter (\<lambda>f. startswith_dot (name f)) other_files;
          regular_dirs = filter (\<lambda>d. \<not> startswith_dot (name d)) directories;
          hidden_dirs = filter (\<lambda>d. startswith_dot (name d)) directories
      in readme_files @ sort_key name regular_files @ sort_key name hidden_files
           @ sort_key name regular_dirs @ sort_key name hidden_dirs)"


section \<open>Tree walker\<close>

text \<open>
  The result dictionary of the directory being scanned, while its items are processed.
\<close>

record dir_result =
  r_name :: string
  r_size :: nat
  r_children :: "node list"
  r_file_count :: nat
  r_dir_count :: nat
  r_path :: path
  r_ignore_content :: bool

definition to_node :: "dir_result \<Rightarrow> node" where
  "to_node r = DirNode (r_name r) (r_size r) (r_children r) (r_file_count r) (r_dir_count r)
     (r_path r) (r_ignore_content r)"

type_synonym outcome = "exn option \<times> dir_result \<times> path set \<times> stats"

type_synonym scan_outcome = "exn option \<times> node option \<times> path set \<times> stats"

definition admit_file ::
  "env \<Rightarrow> path \<Rightarrow> path \<Rightarrow> dir_result \<Rightarrow> stats \<Rightarrow> exn option \<times> dir_result \<times> stats" where
  \<comment> \<open>the statements shared by \<^verbatim>\<open>_process_file\<close> (lines 429-453, \<open>src = item\<close>) and the file
      branch of \<^verbatim>\<open>_process_symlink\<close> (lines 363-386, \<open>src = real_path\<close>): the file at \<open>src\<close>
      is measured and read, the node is named after \<open>item\<close>\<close>
  "admit_file E src item result st =
     (let file_size = st_size E src
      in if total_size st + file_size > MAX_TOTAL_SIZE_BYTES
         then (Some MaxFileSizeReachedError, result, st)
         else
           let st1 = st\<lparr>total_files := total_files st + 1,
                        total_size := total_size st + file_size\<rparr>
           in if total_files st1 > MAX_FILES
              then (Some MaxFilesReachedError, result, st1)
              else
                let is_text = is_text_file E src;
                    text = (if is_text then read_file_content E src else ''[Non-text file]'');
                    child = FileNode (path_name item) file_size text item
                in (None,
                    result\<lparr>r_children := r_children result @ [child],
                           r_size := r_size result + file_size,
                           r_file_count := r_file_count result + 1\<rparr>,
                    st1))"

definition process_file ::
  "env \<Rightarrow> path \<Rightarrow> dir_result \<Rightarrow> stats \<Rightarrow> exn option \<times> dir_result \<times> stats" where
  "process_file E item result st = admit_file E item item result st"

definition rename_node :: "path \<Rightarrow> node \<Rightarrow> node" where
  \<comment> \<open>\<^verbatim>\<open>subdir["name"] = item.name; subdir["path"] = str(item)\<close>\<close>
  "rename_node item sd = DirNode (path_name item) (nsize sd) (children sd) (file_count sd)
     (dir_count sd) item (ignore_content sd)"

definition attach_subdir :: "dir_result \<Rightarrow> node \<Rightarrow> dir_result" where
  "attach_subdir result sd =
     result\<lparr>r_children := r_children result @ [sd],
            r_size := r_size result + nsize sd,
            r_file_count := r_file_count result + file_count sd,
            r_dir_count := r_dir_count result + (1 + dir_count sd)\<rparr>"

definition attach_scanned ::
  "string list \<Rightarrow> (node \<Rightarrow> node) \<Rightarrow> dir_result \<Rightarrow> scan_outcome \<Rightarrow> outcome" where
  \<comment> \<open>\<^verbatim>\<open>if subdir and (not include_patterns or subdir["file_count"] > 0)\<close>, after the
      recursive scan; \<open>rn\<close> is the renaming of the symlink branch, the identity otherwise\<close>
  "attach_scanned inc rn result out =
     (case out of (ex, subdir, seen, st) \<Rightarrow>
        (case ex of
           Some e \<Rightarrow> (Some e, result, seen, st)
         | None \<Rightarrow>
            (case subdir of
               None \<Rightarrow> (None, result, seen, st)
             | Some sd \<Rightarrow>
                 if inc = [] \<or> file_count sd > 0
                 then (None, attach_subdir result (rn sd), seen, st)
                 else (None, result, seen, st))))"

definition item_catch :: "outcome \<Rightarrow> outcome" where
  \<comment> \<open>\<^verbatim>\<open>except (MaxFileSizeReachedError, AlreadyVisitedError)\<close> of \<^verbatim>\<open>_process_item\<close>\<close>
  "item_catch out =
     (case out of (ex, r, seen, st) \<Rightarrow>
        if ex = Some MaxFileSizeReachedError \<or> ex = Some AlreadyVisitedError
        then (None, r, seen, st) else (ex, r, seen, st))"

definition scan_finish :: "outcome \<Rightarrow> scan_outcome" where
  \<comment> \<open>\<^verbatim>\<open>except MaxFilesReachedError\<close> of \<^verbatim>\<open>_scan_directory\<close>, then the children are sorted
      and the result is returned; any other exception leaves the function\<close>
  "scan_finish out =
     (case out of (ex, r, seen, st) \<Rightarrow>
        if ex = None \<or> ex = Some MaxFilesReachedError
        then (None, Some (to_node (r\<lparr>r_children := sort_children (r_children r)\<rparr>)), seen, st)
        else (ex, None, seen, st))"

text \<open>
  Termination of the walk: the depth ceiling bounds the recursion, whatever the file system.
  The rank orders the four functions at one depth and falls with every descent.
\<close>

definition walk_rank ::
  "(env \<times> query \<times> path \<times> path set \<times> nat \<times> stats
    + env \<times> query \<times> path list \<times> dir_result \<times> path set \<times> stats \<times> nat
        \<times> string list \<times> path \<times> string list)
   + (env \<times> path \<times> query \<times> dir_result \<times> path set \<times> stats \<times> nat
        \<times> string list \<times> path \<times> string list
    + env \<times> path \<times> query \<times> dir_result \<times> path set \<times> stats \<times> nat
        \<times> path \<times> string list) \<Rightarrow> nat \<times> nat" where
  "walk_rank x =
     (case x of
        Inl (Inl (E, q, p, seen_paths, depth, st)) \<Rightarrow> (4 * (22 - depth), 0)
      | Inl (Inr (E, q, items, result, seen_paths, st, depth, rest)) \<Rightarrow>
          (4 * (21 - depth) + 3, length items)
      | Inr (Inl (E, item, q, result, seen_paths, st, depth, rest)) \<Rightarrow>
          (4 * (21 - depth) + 2, 0)
      | Inr (Inr (E, item, q, result, seen_paths, st, depth, rest)) \<Rightarrow>
          (4 * (21 - depth) + 1, 0))"

function scan_directory ::
    "env \<Rightarrow> query \<Rightarrow> path \<Rightarrow> path set \<Rightarrow> nat \<Rightarrow> stats \<Rightarrow> scan_outcome"
  and process_items ::
    "env \<Rightarrow> query \<Rightarrow> path list \<Rightarrow> dir_result \<Rightarrow> path set \<Rightarrow> stats \<Rightarrow> nat
       \<Rightarrow> string list \<Rightarrow> path \<Rightarrow> string list \<Rightarrow> outcome"
  and process_item ::
    "env \<Rightarrow> path \<Rightarrow> query \<Rightarrow> dir_result \<Rightarrow> path set \<Rightarrow> stats \<Rightarrow> nat
       \<Rightarrow> string list \<Rightarrow> path \<Rightarrow> string list \<Rightarrow> outcome"
  and process_symlink ::
    "env \<Rightarrow> path \<Rightarrow> query \<Rightarrow> dir_result \<Rightarrow> path set \<Rightarrow> stats \<Rightarrow> nat
       \<Rightarrow> path \<Rightarrow> string list \<Rightarrow> outcome"
where
  "scan_directory E q p seen_paths depth st =
     (if depth > MAX_DIRECTORY_DEPTH then (None, None, seen_paths, st)
      else if total_files st \<ge> MAX_FILES then (None, None, seen_paths, st)
      else if total_size st \<ge> MAX_TOTAL_SIZE_BYTES then (None, None, seen_paths, st)
      else
        let real_path = resolve E p
        in if real_path \<in> seen_paths then (None, None, seen_paths, st)
           else
             let seen1 = insert real_path seen_paths;
                 result = \<lparr>r_name = path_name p, r_size = 0, r_children = [],
                            r_file_count = 0, r_dir_count = 0, r_path = p,
                            r_ignore_content = False\<rparr>
             in scan_finish
                  (case iterdir E p of
                     None \<Rightarrow> (None, result, seen1, st)
                   | Some items \<Rightarrow>
                       process_items E q items result seen1 st depth
                         (ignore_patterns q) (local_path q) (include_patterns q)))"
| "process_items E q [] result seen_paths st depth ign base_path inc =
     (None, result, seen_paths, st)"
| "process_items E q (item # rest) result seen_paths st depth ign base_path inc =
     (case process_item E item q result seen_paths st depth ign base_path inc of
        (ex, r, s, t) \<Rightarrow>
          if ex = None then process_items E q rest r s t depth ign base_path inc
          else (ex, r, s, t))"
| "process_item E item q result seen_paths st depth ign base_path inc =
     (if should_exclude E item base_path ign then (None, result, seen_paths, st)
      else if is_file E item \<and> include_patterns q \<noteq> []
                \<and> \<not> should_include E item base_path inc
      then (None, result\<lparr>r_ignore_content := True\<rparr>, seen_paths, st)
      else
        item_catch
          (case (if is_symlink E item
                 then process_symlink E item q result seen_paths st depth base_path inc
                 else (None, result, seen_paths, st)) of
             (ex, r, s, t) \<Rightarrow>
               if ex \<noteq> None then (ex, r, s, t)
               else if is_file E item
               then (case process_file E item r t of (ex', r', t') \<Rightarrow> (ex', r', s, t'))
               else if is_dir E item
               then attach_scanned inc (\<lambda>sd. sd) r (scan_directory E q item s (depth + 1) t)
               else (None, r, s, t)))"
| "process_symlink E item q result seen_paths st depth base_path inc =
     (if \<not> is_safe_symlink E item base_path
      then (Some AlreadyVisitedError, result, seen_paths, st)
      else
        let real_path = resolve E item
        in if real_path \<in> seen_paths then (Some AlreadyVisitedError, result, seen_paths, st)
           else if is_file E real_path
           then (case admit_file E real_path item result st of
                   (ex, r, t) \<Rightarrow> (ex, r, seen_paths, t))
           else if is_dir E real_path
           then attach_scanned inc (rename_node item) result
                  (scan_directory E q real_path seen_paths (depth + 1) st)
           else (None, result, seen_paths, st))"
  by pat_completeness auto

termination
  by (relation "inv_image (less_than <*lex*> less_than) walk_rank")
     (auto simp: walk_rank_def MAX_DIRECTORY_DEPTH_def)

declare scan_directory.simps [simp del] process_items.simps [simp del]
  process_item.simps [simp del] process_symlink.simps [simp del]


definition fresh_result :: "path \<Rightarrow> dir_result" where
  \<comment> \<open>the dictionary \<^verbatim>\<open>_scan_directory\<close> starts from\<close>
  "fresh_result p = \<lparr>r_name = path_name p, r_size = 0, r_children = [], r_file_count = 0,
     r_dir_count = 0, r_path = p, r_ignore_content = False\<rparr>"

definition fresh_stats :: stats where
  \<comment> \<open>\<^verbatim>\<open>{"total_files": 0, "total_size": 0}\<close>\<close>
  "fresh_stats = \<lparr>total_files = 0, total_size = 0\<rparr>"

section \<open>Renderer\<close>

definition newline :: string where
  "newline = [CHR 0x0A]"

record file_info =
  fi_path :: string
  fi_content :: "string option"
  fi_size :: nat

datatype ingest_error = NoFilesFound | NotInSubpath | Escaped exn

text \<open>
  \<^verbatim>\<open>_extract_files_content\<close> appends to the list it is given and returns it;
  \<open>NotInSubpath\<close> is the \<^verbatim>\<open>ValueError\<close> of \<^verbatim>\<open>relative_to\<close>.
\<close>

fun extract_files_content ::
    "query \<Rightarrow> node \<Rightarrow> nat \<Rightarrow> file_info list \<Rightarrow> ingest_error + file_info list"
  and extract_children ::
    "query \<Rightarrow> node list \<Rightarrow> nat \<Rightarrow> file_info list \<Rightarrow> ingest_error + file_info list"
where
  "extract_files_content q (FileNode n sz c p) mfs files =
     (if c \<noteq> ''[Non-text file]''
      then (let text = (if sz > mfs then None else Some c)
            in case relative_to p (local_path q) of
                 None \<Rightarrow> Inl NotInSubpath
               | Some relative_path \<Rightarrow>
                   Inr (files @ [\<lparr>fi_path = rel_str relative_path, fi_content = text,
                                   fi_size = sz\<rparr>]))
      else Inr files)"
| "extract_files_content q (DirNode n sz cs fc dc p ic) mfs files =
     extract_children q cs mfs files"
| "extract_children q [] mfs files = Inr files"
| "extract_children q (child # cs) mfs files =
     (case extract_files_content q child mfs files of
        Inl e \<Rightarrow> Inl e
      | Inr files' \<Rightarrow> extract_children q cs mfs files')"

definition separator :: string where
  \<comment> \<open>\<^verbatim>\<open>"=" * 48 + "\n"\<close>\<close>
  "separator = replicate 48 CHR ''='' @ newline"

definition content_falsy :: "string option \<Rightarrow> bool" where
  \<comment> \<open>\<^verbatim>\<open>not file["content"]\<close>: \<^verbatim>\<open>None\<close> and the empty string are both false\<close>
  "content_falsy c = (case c of None \<Rightarrow> True | Some t \<Rightarrow> t = [])"

definition create_file_content_string :: "file_info list \<Rightarrow> string" where
  "create_file_content_string files =
     foldl (\<lambda>output file.
              if content_falsy (fi_content file) then output
              else output @ separator @ (''File: '' @ fi_path file @ newline) @ separator
                     @ (the (fi_content file) @ newline @ newline))
           [] files"

fun str_nat :: "nat \<Rightarrow> string" where
  "str_nat n =
     (if n < 10 then [char_of (48 + n)]
      else str_nat (n div 10) @ [char_of (48 + n mod 10)])"

declare str_nat.simps [simp del]

definition truthy :: "string option \<Rightarrow> bool" where
  "truthy v = (case v of None \<Rightarrow> False | Some t \<Rightarrow> t \<noteq> [])"

definition create_summary_string :: "query \<Rightarrow> node \<Rightarrow> string" where
  "create_summary_string q nodes =
     (let summary0 = (case user_name q of
                        Some u \<Rightarrow> ''Repository: '' @ u @ ''/'' @ repo_name q @ newline
                      | None \<Rightarrow> ''Repository: '' @ slug q @ newline);
          summary1 = summary0 @ ''Files analyzed: '' @ str_nat (file_count nodes) @ newline;
          summary2 = (if subpath q \<noteq> ''/''
                      then summary1 @ ''Subpath: '' @ subpath q @ newline else summary1)
      in if truthy (commit q) then summary2 @ ''Commit: '' @ the (commit q) @ newline
         else if branch q \<noteq> None \<and> branch q \<noteq> Some ''main'' \<and> branch q \<noteq> Some ''master''
                   \<and> truthy (branch q)
         then summary2 @ ''Branch: '' @ the (branch q) @ newline
         else summary2)"

text \<open>
  The connectors of the tree diagram are the box-drawing characters U+2514, U+251C, U+2502
  and U+2500; they are written as their UTF-8 bytes.
\<close>

definition conn_last :: string where
  "conn_last = [CHR 0xE2, CHR 0x94, CHR 0x94, CHR 0xE2, CHR 0x94, CHR 0x80,
                CHR 0xE2, CHR 0x94, CHR 0x80, CHR '' '']"

definition conn_tee :: string where
  "conn_tee = [CHR 0xE2, CHR 0x94, CHR 0x9C, CHR 0xE2, CHR 0x94, CHR 0x80,
               CHR 0xE2, CHR 0x94, CHR 0x80, CHR '' '']"

definition conn_bar :: string where
  "conn_bar = [CHR 0xE2, CHR 0x94, CHR 0x82, CHR '' '', CHR '' '', CHR '' '']"

text \<open>
  \<^verbatim>\<open>_create_tree_structure\<close>; the loop over \<^verbatim>\<open>enumerate(children)\<close> is \<open>tree_children\<close>, where
  \<^verbatim>\<open>i == len(children) - 1\<close> holds exactly at the last child.
\<close>

fun create_tree_structure :: "query \<Rightarrow> node \<Rightarrow> string \<Rightarrow> bool \<Rightarrow> string"
  and tree_children :: "query \<Rightarrow> node list \<Rightarrow> string \<Rightarrow> string"
where
  "create_tree_structure q (FileNode n sz c p) pre is_last =
     (let nm = (if n = [] then slug q else n)
      in if nm \<noteq> []
         then pre @ (if is_last then conn_last else conn_tee) @ nm @ newline
         else [])"
| "create_tree_structure q (DirNode n sz cs fc dc p ic) pre is_last =
     (let nm = (if n = [] then slug q else n);
          tree = (if nm \<noteq> []
                  then pre @ (if is_last then conn_last else conn_tee) @ (nm @ ''/'') @ newline
                  else []);
          new_prefix = (if nm \<noteq> [] then pre @ (if is_last then ''    '' else conn_bar)
                        else pre)
      in tree @ tree_children q cs new_prefix)"
| "tree_children q [] pre = []"
| "tree_children q (child # cs) pre =
     create_tree_structure q child pre (cs = []) @ tree_children q cs pre"

definition generate_token_string :: "env \<Rightarrow> string \<Rightarrow> string option" where
  "generate_token_string E context_string =
     (case encode_len E context_string of
        None \<Rightarrow> None
      | Some total_tokens \<Rightarrow>
          if total_tokens > 1000000 then Some (fmt_1f E total_tokens 1000000 @ ''M'')
          else if total_tokens > 1000 then Some (fmt_1f E total_tokens 1000 @ ''k'')
          else Some (str_nat total_tokens))"

section \<open>Entry point\<close>

definition ingest_directory ::
  "env \<Rightarrow> path \<Rightarrow> query \<Rightarrow> ingest_error + string \<times> string \<times> string" where
  "ingest_directory E p q =
     (case scan_directory E q p {} 0 fresh_stats of
        (Some e, _, _, _) \<Rightarrow> Inl (Escaped e)
      | (None, None, _, _) \<Rightarrow> Inl NoFilesFound
      | (None, Some nodes, _, _) \<Rightarrow>
          (case extract_files_content q nodes (max_file_size q) [] of
             Inl e \<Rightarrow> Inl e
           | Inr files \<Rightarrow>
               (let summary = create_summary_string q nodes;
                    tree = ''Directory structure:'' @ newline
                             @ create_tree_structure q nodes [] True;
                    files_content = create_file_content_string files;
                    formatted_tokens = generate_token_string E (tree @ files_content);
                    summary' = (if truthy formatted_tokens
                                then summary @ newline @ ''Estimated tokens: ''
                                       @ the formatted_tokens
                                else summary)
                in Inr (summary', tree, files_content))))"

fun split_slash :: "string \<Rightarrow> string list" where
  "split_slash [] = [[]]"
| "split_slash (c # cs) =
     (if c = CHR ''/'' then [] # split_slash cs
      else (case split_slash cs of w # ws \<Rightarrow> (c # w) # ws | [] \<Rightarrow> [[c]]))"

definition scan_root :: "query \<Rightarrow> path" where
  \<comment> \<open>\<^verbatim>\<open>path = query["local_path"] / query["subpath"].lstrip("/")\<close> of \<^verbatim>\<open>run_ingest_query\<close>:
      joining drops the empty and the dot components\<close>
  "scan_root q =
     local_path q
       @ filter (\<lambda>c. c \<noteq> [] \<and> c \<noteq> ''.'')
           (split_slash (dropWhile (\<lambda>c. c = CHR ''/'') (subpath q)))"

section \<open>Properties of trees\<close>

fun count_files :: "node \<Rightarrow> nat" where
  "count_files (FileNode n sz c p) = 1"
| "count_files (DirNode n sz cs fc dc p ic) = sum_list (map count_files cs)"

fun total_bytes :: "node \<Rightarrow> nat" where
  "total_bytes (FileNode n sz c p) = sz"
| "total_bytes (DirNode n sz cs fc dc p ic) = sum_list (map total_bytes cs)"

fun preorder_files :: "node \<Rightarrow> node list" where
  "preorder_files (FileNode n sz c p) = [FileNode n sz c p]"
| "preorder_files (DirNode n sz cs fc dc p ic) = concat (map preorder_files cs)"

definition child_files :: "node \<Rightarrow> nat" where
  \<comment> \<open>what a child adds to its parent's \<^verbatim>\<open>file_count\<close>\<close>
  "child_files c = (case c of FileNode _ _ _ _ \<Rightarrow> 1 | DirNode _ _ _ fc _ _ _ \<Rightarrow> fc)"

definition child_dirs :: "node \<Rightarrow> nat" where
  \<comment> \<open>what a child adds to its parent's \<^verbatim>\<open>dir_count\<close>\<close>
  "child_dirs c = (case c of FileNode _ _ _ _ \<Rightarrow> 0 | DirNode _ _ _ _ dc _ _ \<Rightarrow> 1 + dc)"

text \<open>
  A well-formed tree: the aggregates of every directory node are the sums over its children,
  files contributing themselves and subdirectories their own aggregates.
\<close>

fun wf_node :: "node \<Rightarrow> bool" where
  "wf_node (FileNode n sz c p) = True"
| "wf_node (DirNode n sz cs fc dc p ic) =
     (sz = sum_list (map nsize cs) \<and> fc = sum_list (map child_files cs)
      \<and> dc = sum_list (map child_dirs cs) \<and> list_all wf_node cs)"

text \<open>The same, for the result dictionary of a directory while it is being filled.\<close>

definition acc_wf :: "dir_result \<Rightarrow> bool" where
  "acc_wf r = (r_size r = sum_list (map nsize (r_children r))
     \<and> r_file_count r = sum_list (map child_files (r_children r))
     \<and> r_dir_count r = sum_list (map child_dirs (r_children r))
     \<and> list_all wf_node (r_children r))"

definition files_in :: "dir_result \<Rightarrow> nat" where
  "files_in r = sum_list (map count_files (r_children r))"

text \<open>Two result dictionaries with the same entries, whatever their filter flag.\<close>

definition same_entries :: "dir_result \<Rightarrow> dir_result \<Rightarrow> bool" where
  "same_entries r r' = (r_children r' = r_children r \<and> r_size r' = r_size r
     \<and> r_file_count r' = r_file_count r \<and> r_dir_count r' = r_dir_count r
     \<and> r_name r' = r_name r \<and> r_path r' = r_path r)"

fun dir_height :: "node \<Rightarrow> nat" where
  "dir_height (FileNode n sz c p) = 0"
| "dir_height (DirNode n sz cs fc dc p ic) = Suc (fold max (map dir_height cs) 0)"

fun paths_under :: "path \<Rightarrow> node \<Rightarrow> bool" where
  "paths_under base (FileNode n sz c p) = prefix base p"
| "paths_under base (DirNode n sz cs fc dc p ic) = list_all (paths_under base) cs"

text \<open>
  The display order as the specification words it: the group of a child (README first, then
  plain files, hidden files, plain directories, hidden directories), and inside every group
  but the first the names in ascending order.
\<close>

definition child_group :: "node \<Rightarrow> nat" where
  "child_group c =
     (case c of
        FileNode n _ _ _ \<Rightarrow>
          if lower n = ''readme.md'' then 0 else if startswith_dot n then 2 else 1
      | DirNode n _ _ _ _ _ _ \<Rightarrow> if startswith_dot n then 4 else 3)"

definition child_le :: "node \<Rightarrow> node \<Rightarrow> bool" where
  "child_le a b =
     (child_group a < child_group b
      \<or> child_group a = child_group b \<and> (child_group a = 0 \<or> name a \<le> name b))"

fun all_dirs_ordered :: "node \<Rightarrow> bool" where
  "all_dirs_ordered (FileNode n sz c p) = True"
| "all_dirs_ordered (DirNode n sz cs fc dc p ic) =
     (sorted_wrt child_le cs \<and> list_all all_dirs_ordered cs)"

text \<open>
  The content string as the specification words it: one block for every file node of the
  pre-order traversal that is neither binary-marked nor over the content-size ceiling.
\<close>

definition file_block :: "query \<Rightarrow> node \<Rightarrow> string" where
  "file_block q f =
     (case relative_to (npath f) (local_path q) of
        None \<Rightarrow> []
      | Some rel \<Rightarrow>
          separator @ (''File: '' @ rel_str rel @ newline) @ separator
            @ (content f @ newline @ newline))"

definition spec_rendered :: "nat \<Rightarrow> node \<Rightarrow> bool" where
  "spec_rendered mfs f = (content f \<noteq> ''[Non-text file]'' \<and> \<not> nsize f > mfs)"

definition code_rendered :: "nat \<Rightarrow> node \<Rightarrow> bool" where
  \<comment> \<open>the files the code renders: the empty text is left out too\<close>
  "code_rendered mfs f = (spec_rendered mfs f \<and> content f \<noteq> [])"

text \<open>
  The tree diagram as the specification words it for a tree with no file entries: the lines
  of the directories alone, each with its connector and a closing slash, drawn as
  \<^verbatim>\<open>_create_tree_structure\<close> draws them.
\<close>

fun directory_lines :: "query \<Rightarrow> node \<Rightarrow> string \<Rightarrow> bool \<Rightarrow> string"
  and directory_lines_below :: "query \<Rightarrow> node list \<Rightarrow> string \<Rightarrow> string"
where
  "directory_lines q (FileNode n sz c p) pre is_last = []"
| "directory_lines q (DirNode n sz cs fc dc p ic) pre is_last =
     (let nm = (if n = [] then slug q else n)
      in if nm = [] then directory_lines_below q cs pre
         else pre @ (if is_last then conn_last else conn_tee) @ nm @ ''/'' @ newline
                @ directory_lines_below q cs (pre @ (if is_last then ''    '' else conn_bar)))"
| "directory_lines_below q [] pre = []"
| "directory_lines_below q (child # cs) pre =
     directory_lines q child pre (cs = []) @ directory_lines_below q cs pre"

section \<open>Example file systems\<close>

text \<open>
  A small file system for the examples: regular files with their bytes, directories with
  their listing, and symbolic links with their canonical target. Patterns are matched by a
  glob matcher for \<^verbatim>\<open>*\<close> and \<^verbatim>\<open>?\<close>; the examples use no character classes.
\<close>

datatype fs_entry = File "byte list" | Dir "string list" | Link path

fun glob_match :: "string \<Rightarrow> string \<Rightarrow> bool" where
  "glob_match [] [] = True"
| "glob_match (c # cs) [] = False"
| "glob_match [] (p # ps) = (p = CHR ''*'' \<and> glob_match [] ps)"
| "glob_match (c # cs) (p # ps) =
     (if p = CHR ''*''
      then (if glob_match (c # cs) ps then True else glob_match cs (p # ps))
      else (p = CHR ''?'' \<or> p = c) \<and> glob_match cs ps)"

definition env_of :: "(path \<times> fs_entry) list \<Rightarrow> env" where
  "env_of fs =
     (let target = (\<lambda>p. case map_of fs p of Some (Link t) \<Rightarrow> t | _ \<Rightarrow> p)
      in \<lparr>is_symlink = (\<lambda>p. case map_of fs p of Some (Link _) \<Rightarrow> True | _ \<Rightarrow> False),
          resolve = target,
          kind_of = (\<lambda>p. case map_of fs (target p) of
                            Some (File _) \<Rightarrow> Some RegularFile
                          | Some (Dir _) \<Rightarrow> Some Directory
                          | _ \<Rightarrow> None),
          st_size = (\<lambda>p. case map_of fs (target p) of Some (File bs) \<Rightarrow> length bs | _ \<Rightarrow> 0),
          listdir = (\<lambda>p. case map_of fs (target p) of Some (Dir ns) \<Rightarrow> Some ns | _ \<Rightarrow> None),
          read_bytes = (\<lambda>p. case map_of fs (target p) of Some (File bs) \<Rightarrow> Some bs
                                | _ \<Rightarrow> None),
          fnmatch = glob_match,
          decode_utf8 = map (\<lambda>b. char_of (unat b)),
          process_notebook = (\<lambda>p. []),
          strerror = (\<lambda>p. ''error''),
          encode_len = (\<lambda>s. Some (length s)),
          fmt_1f = (\<lambda>n d. str_nat (n div d))\<rparr>)"

definition example_query :: query where
  "example_query =
     \<lparr>local_path = [''repo''], subpath = ''/'', include_patterns = [], ignore_patterns = [],
      max_file_size = MAX_FILE_SIZE, slug = ''user/repo'', user_name = Some ''user'',
      repo_name = ''repo'', commit = None, branch = None\<rparr>"

text \<open>Example trees: the scenario directory of the specification, and byte samples.\<close>

definition fs_bytes :: "(path \<times> fs_entry) list" where
  "fs_bytes = [([''repo''], Dir [''bell.txt'', ''nul.bin'']),
               ([''repo'', ''bell.txt''], File [104, 7, 105]),
               ([''repo'', ''nul.bin''], File [104, 0, 105])]"

definition fs_scenario :: "(path \<times> fs_entry) list" where
  "fs_scenario = [([''repo''], Dir [''lib'', ''.secret'', ''a.txt'', ''README.md'']),
                  ([''repo'', ''lib''], Dir [''b.py'']),
                  ([''repo'', ''lib'', ''b.py''], File [112]),
                  ([''repo'', ''.secret''], File [115]),
                  ([''repo'', ''a.txt''], File [97]),
                  ([''repo'', ''README.md''], File [114])]"

definition scenario_tree :: node where
  "scenario_tree =
     DirNode ''repo'' 4
       [FileNode ''README.md'' 1 ''r'' [''repo'', ''README.md''],
        FileNode ''a.txt'' 1 ''a'' [''repo'', ''a.txt''],
        FileNode ''.secret'' 1 ''s'' [''repo'', ''.secret''],
        DirNode ''lib'' 1 [FileNode ''b.py'' 1 ''p'' [''repo'', ''lib'', ''b.py'']] 1 0
          [''repo'', ''lib''] False]
       4 1 [''repo''] False"

text \<open>
  The tree returned for the scenario directory when the running count stands at 9998 as
  the scan begins: \<^verbatim>\<open>lib/b.py\<close> and \<^verbatim>\<open>.secret\<close> are admitted, \<^verbatim>\<open>a.txt\<close> breaches the ceiling.
\<close>

definition breach_tree :: node where
  "breach_tree =
     DirNode ''repo'' 2
       [FileNode ''.secret'' 1 ''s'' [''repo'', ''.secret''],
        DirNode ''lib'' 1 [FileNode ''b.py'' 1 ''p'' [''repo'', ''lib'', ''b.py'']] 1 0
          [''repo'', ''lib''] False]
       2 1 [''repo''] False"

text \<open>A flat directory of 10001 empty files, one more than the file-count ceiling.\<close>

definition flat_names :: "string list" where
  "flat_names = map (\<lambda>i. replicate (Suc i) CHR ''f'') [0 ..< 10001]"

definition fs_flat :: "(path \<times> fs_entry) list" where
  "fs_flat = ([''repo''], Dir flat_names) # map (\<lambda>n. ([''repo'', n], File [])) flat_names"

text \<open>A directory with a symbolic link back to the root of the scan.\<close>

definition fs_loop :: "(path \<times> fs_entry) list" where
  "fs_loop = [([''repo''], Dir [''a'']),
              ([''repo'', ''a''], Dir [''f.txt'', ''up'']),
              ([''repo'', ''a'', ''f.txt''], File [120]),
              ([''repo'', ''a'', ''up''], Link [''repo''])]"

definition loop_tree :: node where
  "loop_tree =
     DirNode ''repo'' 1
       [DirNode ''a'' 1 [FileNode ''f.txt'' 1 ''x'' [''repo'', ''a'', ''f.txt'']] 1 0
          [''repo'', ''a''] False]
       1 1 [''repo''] False"

text \<open>
  A repository scanned below the subpath \<^verbatim>\<open>/sub\<close>, with a symbolic link that leaves the
  subpath but stays inside the repository; and a link that leaves the repository.
\<close>

definition sub_query :: query where
  "sub_query = example_query\<lparr>subpath := ''/sub''\<rparr>"

definition fs_sub :: "(path \<times> fs_entry) list" where
  "fs_sub = [([''repo''], Dir [''sub'', ''other'']),
             ([''repo'', ''sub''], Dir [''link'']),
             ([''repo'', ''sub'', ''link''], Link [''repo'', ''other'']),
             ([''repo'', ''other''], Dir [''f.txt'']),
             ([''repo'', ''other'', ''f.txt''], File [120])]"

definition sub_tree :: node where
  "sub_tree =
     DirNode ''sub'' 1
       [DirNode ''link'' 1 [FileNode ''f.txt'' 1 ''x'' [''repo'', ''other'', ''f.txt'']] 1 0
          [''repo'', ''sub'', ''link''] False]
       1 1 [''repo'', ''sub''] False"

definition fs_outside :: "(path \<times> fs_entry) list" where
  "fs_outside = [([''repo''], Dir [''out'']),
                 ([''repo'', ''out''], Link [''etc'', ''passwd'']),
                 ([''etc'', ''passwd''], File [114])]"

text \<open>
  A repository scanned below the subpath \<^verbatim>\<open>/evil\<close>, where \<^verbatim>\<open>/repo/evil\<close> is itself a
  symbolic link to the directory \<^verbatim>\<open>/etc\<close>: the path \<^verbatim>\<open>/repo/evil/passwd\<close> designates the
  file \<^verbatim>\<open>/etc/passwd\<close>, and every path below the link resolves below \<^verbatim>\<open>/etc\<close>.
\<close>

definition evil_query :: query where
  "evil_query = example_query\<lparr>subpath := ''/evil''\<rparr>"

definition fs_root_link :: "(path \<times> fs_entry) list" where
  "fs_root_link = [([''repo''], Dir [''evil'']),
                   ([''repo'', ''evil''], Link [''etc'']),
                   ([''repo'', ''evil'', ''passwd''], File [114]),
                   ([''etc''], Dir [''passwd'']),
                   ([''etc'', ''passwd''], File [114])]"

definition env_root_link :: env where
  "env_root_link =
     (env_of fs_root_link)
       \<lparr>resolve := (\<lambda>p. if prefix [''repo'', ''evil''] p then [''etc''] @ drop 2 p else p)\<rparr>"

text \<open>A directory with a file and a symbolic link to that file.\<close>

definition fs_link_file :: "(path \<times> fs_entry) list" where
  "fs_link_file = [([''repo''], Dir [''a.txt'', ''link'']),
                   ([''repo'', ''a.txt''], File [104, 105]),
                   ([''repo'', ''link''], Link [''repo'', ''a.txt''])]"

text \<open>The include scenario of the specification: pattern \<^verbatim>\<open>*.py\<close> over a small tree.\<close>

definition py_query :: query where
  "py_query = example_query\<lparr>include_patterns := [''*.py'']\<rparr>"

definition fs_include :: "(path \<times> fs_entry) list" where
  "fs_include = [([''repo''], Dir [''a.py'', ''a.txt'', ''lib'', ''docs'']),
                 ([''repo'', ''a.py''], File [112]),
                 ([''repo'', ''a.txt''], File [116]),
                 ([''repo'', ''lib''], Dir [''b.py'']),
                 ([''repo'', ''lib'', ''b.py''], File [98]),
                 ([''repo'', ''docs''], Dir [''c.txt'']),
                 ([''repo'', ''docs'', ''c.txt''], File [99])]"

definition include_tree :: node where
  "include_tree =
     DirNode ''repo'' 2
       [FileNode ''a.py'' 1 ''p'' [''repo'', ''a.py''],
        DirNode ''lib'' 1 [FileNode ''b.py'' 1 ''b'' [''repo'', ''lib'', ''b.py'']] 1 0
          [''repo'', ''lib''] False]
       2 1 [''repo''] True"

text \<open>A directory with an empty text file, and the tree its scan returns.\<close>

definition fs_empty_file :: "(path \<times> fs_entry) list" where
  "fs_empty_file = [([''repo''], Dir [''empty.txt'']),
                    ([''repo'', ''empty.txt''], File [])]"

definition empty_file_tree :: node where
  "empty_file_tree =
     DirNode ''repo'' 0 [FileNode ''empty.txt'' 0 [] [''repo'', ''empty.txt'']] 1 0
       [''repo''] False"

text \<open>An empty directory.\<close>

definition fs_empty_dir :: "(path \<times> fs_entry) list" where
  "fs_empty_dir = [([''repo''], Dir [])]"

text \<open>
  A directory whose files all fail the include pattern \<^verbatim>\<open>*.py\<close>, one of them below a
  subdirectory; the same query with the subdirectory excluded; and a directory that holds
  an empty subdirectory.
\<close>

definition fs_filtered :: "(path \<times> fs_entry) list" where
  "fs_filtered = [([''repo''], Dir [''a.txt'', ''docs'']),
                  ([''repo'', ''a.txt''], File [116]),
                  ([''repo'', ''docs''], Dir [''c.txt'']),
                  ([''repo'', ''docs'', ''c.txt''], File [99])]"

definition docs_query :: query where
  "docs_query = py_query\<lparr>ignore_patterns := [''docs'']\<rparr>"

definition fs_empty_sub :: "(path \<times> fs_entry) list" where
  "fs_empty_sub = [([''repo''], Dir [''sub'']),
                   ([''repo'', ''sub''], Dir [])]"

section \<open>Basic facts\<close>

lemma admit_file_exn:
  "admit_file E src item r t = (ex, r', t') \<Longrightarrow>
     ex = None \<or> ex = Some MaxFileSizeReachedError \<or> ex = Some MaxFilesReachedError"
  by (auto simp: admit_file_def Let_def split: if_splits)

lemma scan_finish_cases:
  assumes "scan_finish (ex0, r0, s0, t0) = (ex, nd, s', t')"
  shows "s' = s0 \<and> t' = t0 \<and>
         ((ex0 = None \<or> ex0 = Some MaxFilesReachedError) \<and> ex = None
            \<and> nd = Some (to_node (r0\<lparr>r_children := sort_children (r_children r0)\<rparr>))
          \<or> ex0 \<noteq> None \<and> ex0 \<noteq> Some MaxFilesReachedError \<and> ex = ex0 \<and> nd = None)"
  using assms by (auto simp: scan_finish_def split: if_splits)

lemma attach_scanned_cases:
  assumes "attach_scanned inc rn r (ex0, nd, s0, t0) = (ex, r', s', t')"
  shows "s' = s0 \<and> t' = t0 \<and> ex = ex0 \<and>
         (r' = r \<or> (\<exists>sd. ex0 = None \<and> nd = Some sd \<and> (inc = [] \<or> file_count sd > 0)
                      \<and> r' = attach_subdir r (rn sd)))"
  using assms by (auto simp: attach_scanned_def split: option.splits if_splits)

lemma item_catch_cases:
  assumes "item_catch (ex0, r0, s0, t0) = (ex, r', s', t')"
  shows "r' = r0 \<and> s' = s0 \<and> t' = t0 \<and>
         (ex = ex0 \<and> ex0 \<noteq> Some MaxFileSizeReachedError \<and> ex0 \<noteq> Some AlreadyVisitedError
          \<or> ex = None \<and> (ex0 = Some MaxFileSizeReachedError \<or> ex0 = Some AlreadyVisitedError))"
  using assms by (auto simp: item_catch_def split: if_splits)

lemma no_raise:
  "scan_directory E q p s d t = (ex, nd, s', t') \<Longrightarrow> ex = None"
  "process_items E q items r s t d ign base inc = (ex, r', s', t') \<Longrightarrow>
     ex = None \<or> ex = Some MaxFilesReachedError"
  "process_item E item q r s t d ign base inc = (ex, r', s', t') \<Longrightarrow>
     ex = None \<or> ex = Some MaxFilesReachedError"
  "process_symlink E item q r s t d base inc = (ex, r', s', t') \<Longrightarrow>
     ex = None \<or> ex = Some MaxFilesReachedError \<or> ex = Some MaxFileSizeReachedError
       \<or> ex = Some AlreadyVisitedError"
proof (induct E q p s d t and E q items r s t d ign base inc and E item q r s t d ign base inc
    and E item q r s t d base inc
    arbitrary: ex nd s' t' and ex r' s' t' and ex r' s' t' and ex r' s' t'
    rule: scan_directory_process_items_process_item_process_symlink.induct)
  case (1 E q p seen_paths depth st)
  show ?case
  proof (cases "iterdir E p")
    case None
    with "1.prems" show ?thesis
      by (subst (asm) scan_directory.simps)
        (auto simp: Let_def scan_finish_def split: if_splits)
  next
    case (Some items)
    let ?fresh = "\<lparr>r_name = path_name p, r_size = 0, r_children = [], r_file_count = 0,
        r_dir_count = 0, r_path = p, r_ignore_content = False\<rparr>"
    obtain ex0 r0 s0 t0 where pi:
      "process_items E q items ?fresh (insert (resolve E p) seen_paths) st depth
         (ignore_patterns q) (local_path q) (include_patterns q) = (ex0, r0, s0, t0)"
      by (metis prod_cases4)
    show ?thesis
    proof (cases "depth > MAX_DIRECTORY_DEPTH \<or> total_files st \<ge> MAX_FILES
        \<or> total_size st \<ge> MAX_TOTAL_SIZE_BYTES \<or> resolve E p \<in> seen_paths")
      case True
      with "1.prems" show ?thesis
        by (subst (asm) scan_directory.simps) (auto simp: Let_def split: if_splits)
    next
      case False
      then have "ex0 = None \<or> ex0 = Some MaxFilesReachedError"
        using "1.hyps"[OF _ _ _ refl _ refl refl Some pi] by auto
      moreover from False "1.prems" Some pi
      have "scan_finish (ex0, r0, s0, t0) = (ex, nd, s', t')"
        by (subst (asm) scan_directory.simps) (simp add: Let_def)
      ultimately show ?thesis
        by (auto dest: scan_finish_cases)
    qed
  qed
next
  case (2 E q result seen_paths st depth ign base_path inc)
  then show ?case by (simp add: process_items.simps)
next
  case (3 E q item rest result seen_paths st depth ign base_path inc)
  obtain ex1 r1 s1 t1 where pi:
    "process_item E item q result seen_paths st depth ign base_path inc = (ex1, r1, s1, t1)"
    by (metis prod_cases4)
  show ?case
  proof (cases "ex1 = None")
    case True
    with pi "3.prems"
    have "process_items E q rest r1 s1 t1 depth ign base_path inc = (ex, r', s', t')"
      by (simp add: process_items.simps)
    with "3.hyps"(2)[of ex1 "(r1, s1, t1)" r1 "(s1, t1)" s1 t1] pi True
    show ?thesis by simp
  next
    case False
    with pi "3.prems" have "ex = ex1"
      by (simp add: process_items.simps)
    with "3.hyps"(1)[OF pi] show ?thesis by simp
  qed
next
  case (4 E item q result seen_paths st depth ign base_path inc)
  show ?case
  proof (cases "should_exclude E item base_path ign \<or>
      (is_file E item \<and> include_patterns q \<noteq> [] \<and> \<not> should_include E item base_path inc)")
    case True
    with "4.prems" show ?thesis
      by (subst (asm) process_item.simps) (auto split: if_splits)
  next
    case False
    obtain ex1 r1 s1 t1 where sl:
      "(if is_symlink E item
        then process_symlink E item q result seen_paths st depth base_path inc
        else (None, result, seen_paths, st)) = (ex1, r1, s1, t1)"
      by (metis prod_cases4)
    obtain ex2 r2 s2 t2 where body:
      "(if ex1 \<noteq> None then (ex1, r1, s1, t1)
        else if is_file E item
        then (case process_file E item r1 t1 of (ex', r', t') \<Rightarrow> (ex', r', s1, t'))
        else if is_dir E item
        then attach_scanned inc (\<lambda>sd. sd) r1 (scan_directory E q item s1 (depth + 1) t1)
        else (None, r1, s1, t1)) = (ex2, r2, s2, t2)"
      by (metis prod_cases4)
    from False have ne: "\<not> should_exclude E item base_path ign"
      "\<not> (is_file E item \<and> include_patterns q \<noteq> [] \<and> \<not> should_include E item base_path inc)"
      by auto
    from "4.prems" have fin: "item_catch (ex2, r2, s2, t2) = (ex, r', s', t')"
      by (subst (asm) process_item.simps) (simp only: ne if_False sl prod.case body)
    have "ex2 = None \<or> ex2 = Some MaxFilesReachedError \<or> ex2 = Some MaxFileSizeReachedError
       \<or> ex2 = Some AlreadyVisitedError"
    proof (cases "ex1 \<noteq> None")
      case True
      with body have "ex2 = ex1" by simp
      moreover from True sl have "is_symlink E item" by (auto split: if_splits)
      ultimately show ?thesis
        using "4.hyps"(1)[of ex1 r1 s1 t1] False sl by auto
    next
      case ex1: False
      show ?thesis
      proof (cases "is_file E item")
        case True
        with ex1 body show ?thesis
          by (auto simp: process_file_def split: prod.splits dest: admit_file_exn)
      next
        case nf: False
        show ?thesis
        proof (cases "is_dir E item")
          case True
          obtain ex3 nd3 s3 t3 where sc:
            "scan_directory E q item s1 (depth + 1) t1 = (ex3, nd3, s3, t3)"
            by (metis prod_cases4)
          from "4.hyps"(2)[OF _ _ sl[symmetric] refl refl _ nf True sc] False ex1
          have "ex3 = None" by auto
          with ex1 nf True body sc show ?thesis
            by (auto dest!: attach_scanned_cases)
        next
          case False
          with ex1 nf body show ?thesis by auto
        qed
      qed
    qed
    with fin show ?thesis by (auto dest!: item_catch_cases)
  qed
next
  case (5 E item q result seen_paths st depth base_path inc)
  show ?case
  proof (cases "is_safe_symlink E item base_path \<and> resolve E item \<notin> seen_paths
      \<and> \<not> is_file E (resolve E item) \<and> is_dir E (resolve E item)")
    case True
    obtain ex3 nd3 s3 t3 where sc:
      "scan_directory E q (resolve E item) seen_paths (depth + 1) st = (ex3, nd3, s3, t3)"
      by (metis prod_cases4)
    from "5.hyps"[OF _ refl _ _ _ sc] True have "ex3 = None" by auto
    with True "5.prems" sc show ?thesis
      by (subst (asm) process_symlink.simps) (auto simp: Let_def dest!: attach_scanned_cases)
  next
    case False
    with "5.prems" show ?thesis
      by (subst (asm) process_symlink.simps)
        (auto simp: Let_def split: if_splits prod.splits dest: admit_file_exn)
  qed
qed


lemma not_excluded_prefix:
  "\<not> should_exclude E item base ign \<Longrightarrow> prefix base item"
  by (auto simp: should_exclude_def relative_to_def split: if_splits)

lemma walk_rule:
  fixes T :: "env \<Rightarrow> query \<Rightarrow> nat \<Rightarrow> dir_result \<times> path set \<times> stats
      \<Rightarrow> exn option \<times> dir_result \<times> path set \<times> stats \<Rightarrow> bool"
    and N :: "env \<Rightarrow> query \<Rightarrow> nat \<Rightarrow> path set \<times> stats \<Rightarrow> node \<Rightarrow> path set \<times> stats \<Rightarrow> bool"
  assumes T_refl: "\<And>E q d x. T E q d x (None, x)"
    and T_trans: "\<And>E q d x y ex z. T E q d x (None, y) \<Longrightarrow> T E q d y (ex, z) \<Longrightarrow> T E q d x (ex, z)"
    and T_raise: "\<And>E q d x. T E q d x (Some AlreadyVisitedError, x)"
    and T_catch: "\<And>E q d x ex y. T E q d x (ex, y) \<Longrightarrow>
        ex = Some MaxFileSizeReachedError \<or> ex = Some AlreadyVisitedError \<Longrightarrow> T E q d x (None, y)"
    and T_ignore: "\<And>E q d r s t. T E q d (r, s, t) (None, r\<lparr>r_ignore_content := True\<rparr>, s, t)"
    and T_admit: "\<And>E q d src item r s t ex r' t'.
        admit_file E src item r t = (ex, r', t') \<Longrightarrow> prefix (local_path q) item \<Longrightarrow>
        d \<le> MAX_DIRECTORY_DEPTH \<Longrightarrow> T E q d (r, s, t) (ex, r', s, t')"
    and T_attach: "\<And>E q d r s t sd s' t' rn inc. N E q (Suc d) (s, t) sd (s', t') \<Longrightarrow>
        rn = (\<lambda>sd. sd) \<or> (\<exists>item. prefix (local_path q) item \<and> rn = rename_node item) \<Longrightarrow>
        inc = [] \<or> file_count sd > 0 \<Longrightarrow>
        d \<le> MAX_DIRECTORY_DEPTH \<Longrightarrow> T E q d (r, s, t) (None, attach_subdir r (rn sd), s', t')"
    and T_drop: "\<And>E q d r s t sd s' t'. N E q (Suc d) (s, t) sd (s', t') \<Longrightarrow>
        file_count sd = 0 \<Longrightarrow>
        d \<le> MAX_DIRECTORY_DEPTH \<Longrightarrow> T E q d (r, s, t) (None, r, s', t')"
    and N_finish: "\<And>E q d p s t ex r' s' t'.
        d \<le> MAX_DIRECTORY_DEPTH \<Longrightarrow> total_files t < MAX_FILES \<Longrightarrow>
        total_size t < MAX_TOTAL_SIZE_BYTES \<Longrightarrow> resolve E p \<notin> s \<Longrightarrow>
        T E q d (fresh_result p, insert (resolve E p) s, t) (ex, r', s', t') \<Longrightarrow>
        ex = None \<or> ex = Some MaxFilesReachedError \<Longrightarrow>
        N E q d (s, t) (to_node (r'\<lparr>r_children := sort_children (r_children r')\<rparr>)) (s', t')"
  shows "scan_directory E q p s d t = (ex, nd, s', t') \<Longrightarrow>
           (case nd of None \<Rightarrow> s' = s \<and> t' = t | Some n \<Rightarrow> N E q d (s, t) n (s', t'))"
    and "process_items E q items r s t d ign base inc = (ex, r', s', t') \<Longrightarrow>
           base = local_path q \<Longrightarrow> d \<le> MAX_DIRECTORY_DEPTH \<Longrightarrow>
           T E q d (r, s, t) (ex, r', s', t')"
    and "process_item E item q r s t d ign base inc = (ex, r', s', t') \<Longrightarrow>
           base = local_path q \<Longrightarrow> d \<le> MAX_DIRECTORY_DEPTH \<Longrightarrow>
           T E q d (r, s, t) (ex, r', s', t')"
    and "process_symlink E item q r s t d base inc = (ex, r', s', t') \<Longrightarrow>
           prefix (local_path q) item \<Longrightarrow> d \<le> MAX_DIRECTORY_DEPTH \<Longrightarrow>
           T E q d (r, s, t) (ex, r', s', t')"
proof (induct E q p s d t and E q items r s t d ign base inc and E item q r s t d ign base inc
    and E item q r s t d base inc
    arbitrary: ex nd s' t' and ex r' s' t' and ex r' s' t' and ex r' s' t'
    rule: scan_directory_process_items_process_item_process_symlink.induct)
  case (1 E q p seen_paths depth st)
  let ?fresh = "\<lparr>r_name = path_name p, r_size = 0, r_children = [], r_file_count = 0,
      r_dir_count = 0, r_path = p, r_ignore_content = False\<rparr>"
  show ?case
  proof (cases "depth > MAX_DIRECTORY_DEPTH \<or> total_files st \<ge> MAX_FILES
      \<or> total_size st \<ge> MAX_TOTAL_SIZE_BYTES \<or> resolve E p \<in> seen_paths")
    case True
    with "1.prems" show ?thesis
      by (subst (asm) scan_directory.simps) (auto simp: Let_def split: if_splits)
  next
    case False
    obtain ex0 r0 s0 t0 where pi:
      "(case iterdir E p of None \<Rightarrow> (None, ?fresh, insert (resolve E p) seen_paths, st)
        | Some items \<Rightarrow> process_items E q items ?fresh (insert (resolve E p) seen_paths) st depth
         (ignore_patterns q) (local_path q) (include_patterns q)) = (ex0, r0, s0, t0)"
      by (metis prod_cases4)
    have T0: "T E q depth (fresh_result p, insert (resolve E p) seen_paths, st) (ex0, r0, s0, t0)"
      and ex0: "ex0 = None \<or> ex0 = Some MaxFilesReachedError"
    proof -
      show "T E q depth (fresh_result p, insert (resolve E p) seen_paths, st) (ex0, r0, s0, t0)"
      proof (cases "iterdir E p")
        case None
        with pi show ?thesis by (auto simp: fresh_result_def T_refl)
      next
        case (Some items)
        with pi have "process_items E q items ?fresh (insert (resolve E p) seen_paths) st depth
         (ignore_patterns q) (local_path q) (include_patterns q) = (ex0, r0, s0, t0)" by simp
        from "1.hyps"[OF _ _ _ refl _ refl refl Some this refl] False
        show ?thesis by (auto simp: fresh_result_def)
      qed
      show "ex0 = None \<or> ex0 = Some MaxFilesReachedError"
        using pi by (auto split: option.splits dest: no_raise(2))
    qed
    from False "1.prems" pi
    have "scan_finish (ex0, r0, s0, t0) = (ex, nd, s', t')"
      by (subst (asm) scan_directory.simps) (simp add: Let_def)
    with ex0 have "s' = s0" "t' = t0"
      "nd = Some (to_node (r0\<lparr>r_children := sort_children (r_children r0)\<rparr>))"
      by (auto dest: scan_finish_cases)
    moreover from False T0 ex0
    have "N E q depth (seen_paths, st)
        (to_node (r0\<lparr>r_children := sort_children (r_children r0)\<rparr>)) (s0, t0)"
      by (intro N_finish) auto
    ultimately show ?thesis by simp
  qed
next
  case (2 E q result seen_paths st depth ign base_path inc)
  then show ?case by (simp add: process_items.simps T_refl)
next
  case (3 E q item rest result seen_paths st depth ign base_path inc)
  obtain ex1 r1 s1 t1 where pi:
    "process_item E item q result seen_paths st depth ign base_path inc = (ex1, r1, s1, t1)"
    by (metis prod_cases4)
  from "3.hyps"(1)[OF pi "3.prems"(2,3)]
  have T1: "T E q depth (result, seen_paths, st) (ex1, r1, s1, t1)" .
  show ?case
  proof (cases "ex1 = None")
    case True
    with pi "3.prems"
    have "process_items E q rest r1 s1 t1 depth ign base_path inc = (ex, r', s', t')"
      by (simp add: process_items.simps)
    with "3.hyps"(2)[of ex1 "(r1, s1, t1)" r1 "(s1, t1)" s1 t1] pi True "3.prems"(2,3)
    have "T E q depth (r1, s1, t1) (ex, r', s', t')" by simp
    with T1 True show ?thesis by (auto intro: T_trans)
  next
    case False
    with pi "3.prems" have "(ex, r', s', t') = (ex1, r1, s1, t1)"
      by (simp add: process_items.simps)
    with T1 show ?thesis by simp
  qed
next
  case (4 E item q result seen_paths st depth ign base_path inc)
  show ?case
  proof (cases "should_exclude E item base_path ign \<or>
      (is_file E item \<and> include_patterns q \<noteq> [] \<and> \<not> should_include E item base_path inc)")
    case True
    with "4.prems" show ?thesis
      by (subst (asm) process_item.simps) (auto split: if_splits simp: T_refl T_ignore)
  next
    case False
    obtain ex1 r1 s1 t1 where sl:
      "(if is_symlink E item
        then process_symlink E item q result seen_paths st depth base_path inc
        else (None, result, seen_paths, st)) = (ex1, r1, s1, t1)"
      by (metis prod_cases4)
    obtain ex2 r2 s2 t2 where body:
      "(if ex1 \<noteq> None then (ex1, r1, s1, t1)
        else if is_file E item
        then (case process_file E item r1 t1 of (ex', r', t') \<Rightarrow> (ex', r', s1, t'))
        else if is_dir E item
        then attach_scanned inc (\<lambda>sd. sd) r1 (scan_directory E q item s1 (depth + 1) t1)
        else (None, r1, s1, t1)) = (ex2, r2, s2, t2)"
      by (metis prod_cases4)
    from False have ne: "\<not> should_exclude E item base_path ign"
      "\<not> (is_file E item \<and> include_patterns q \<noteq> [] \<and> \<not> should_include E item base_path inc)"
      by auto
    from ne(1) "4.prems"(2) have pre: "prefix (local_path q) item"
      by (auto dest: not_excluded_prefix)
    from "4.prems"(1) have fin: "item_catch (ex2, r2, s2, t2) = (ex, r', s', t')"
      by (subst (asm) process_item.simps) (simp only: ne if_False sl prod.case body)
    have T1: "T E q depth (result, seen_paths, st) (ex1, r1, s1, t1)"
    proof (cases "is_symlink E item")
      case True
      with sl "4.hyps"(1)[OF ne True _ pre "4.prems"(3), of ex1 r1 s1 t1] show ?thesis by simp
    next
      case False
      with sl show ?thesis by (auto simp: T_refl)
    qed
    have T2: "T E q depth (result, seen_paths, st) (ex2, r2, s2, t2)"
    proof (cases "ex1 \<noteq> None")
      case True
      with body T1 show ?thesis by simp
    next
      case ex1: False
      have "T E q depth (r1, s1, t1) (ex2, r2, s2, t2)"
      proof (cases "is_file E item")
        case True
        with ex1 body pre "4.prems"(3) show ?thesis
          by (auto simp: process_file_def split: prod.splits intro: T_admit)
      next
        case nf: False
        show ?thesis
        proof (cases "is_dir E item")
          case True
          obtain ex3 nd3 s3 t3 where sc:
            "scan_directory E q item s1 (depth + 1) t1 = (ex3, nd3, s3, t3)"
            by (metis prod_cases4)
          from "4.hyps"(2)[OF ne sl[symmetric] refl refl _ nf True sc] ex1
          have N3: "case nd3 of None \<Rightarrow> s3 = s1 \<and> t3 = t1
              | Some n \<Rightarrow> N E q (Suc depth) (s1, t1) n (s3, t3)"
            by (auto split: option.splits)
          from ex1 nf True body sc
          have "attach_scanned inc (\<lambda>sd. sd) r1 (ex3, nd3, s3, t3) = (ex2, r2, s2, t2)"
            by simp
          moreover have "ex3 = None" using sc by (rule no_raise(1))
          ultimately show ?thesis using N3 "4.prems"(3)
            by (auto simp: attach_scanned_def T_refl split: option.splits if_splits
                intro: T_attach T_drop)
        next
          case False
          with ex1 nf body show ?thesis by (auto simp: T_refl)
        qed
      qed
      with T1 ex1 show ?thesis by (auto intro: T_trans)
    qed
    with fin show ?thesis by (auto dest!: item_catch_cases intro: T_catch)
  qed
next
  case (5 E item q result seen_paths st depth base_path inc)
  show ?case
  proof (cases "is_safe_symlink E item base_path \<and> resolve E item \<notin> seen_paths
      \<and> \<not> is_file E (resolve E item) \<and> is_dir E (resolve E item)")
    case True
    obtain ex3 nd3 s3 t3 where sc:
      "scan_directory E q (resolve E item) seen_paths (depth + 1) st = (ex3, nd3, s3, t3)"
      by (metis prod_cases4)
    from "5.hyps"[OF _ refl _ _ _ sc] True
    have N3: "case nd3 of None \<Rightarrow> s3 = seen_paths \<and> t3 = st
        | Some n \<Rightarrow> N E q (Suc depth) (seen_paths, st) n (s3, t3)"
      by (auto split: option.splits)
    have "ex3 = None" using sc by (rule no_raise(1))
    moreover from True "5.prems" sc
    have "attach_scanned inc (rename_node item) result (ex3, nd3, s3, t3) = (ex, r', s', t')"
      by (subst (asm) process_symlink.simps) (auto simp: Let_def)
    ultimately show ?thesis using N3 "5.prems"(2,3)
      by (auto simp: attach_scanned_def T_refl split: option.splits if_splits
          intro: T_attach T_drop)
  next
    case False
    with "5.prems" show ?thesis
      by (subst (asm) process_symlink.simps)
        (auto simp: Let_def T_refl T_raise split: if_splits prod.splits intro: T_admit)
  qed
qed


lemma env_of_sel:
  "is_symlink (env_of fs) p = (case map_of fs p of Some (Link _) \<Rightarrow> True | _ \<Rightarrow> False)"
  "resolve (env_of fs) p = (case map_of fs p of Some (Link t) \<Rightarrow> t | _ \<Rightarrow> p)"
  "kind_of (env_of fs) p = (case map_of fs (resolve (env_of fs) p) of
                            Some (File _) \<Rightarrow> Some RegularFile
                          | Some (Dir _) \<Rightarrow> Some Directory
                          | _ \<Rightarrow> None)"
  "st_size (env_of fs) p = (case map_of fs (resolve (env_of fs) p) of Some (File bs) \<Rightarrow> length bs | _ \<Rightarrow> 0)"
  "listdir (env_of fs) p = (case map_of fs (resolve (env_of fs) p) of Some (Dir ns) \<Rightarrow> Some ns | _ \<Rightarrow> None)"
  "read_bytes (env_of fs) p = (case map_of fs (resolve (env_of fs) p) of Some (File bs) \<Rightarrow> Some bs | _ \<Rightarrow> None)"
  "fnmatch (env_of fs) = glob_match"
  "decode_utf8 (env_of fs) = map (\<lambda>b. char_of (unat b))"
  "process_notebook (env_of fs) = (\<lambda>p. [])"
  "strerror (env_of fs) = (\<lambda>p. ''error'')"
  "encode_len (env_of fs) = (\<lambda>s. Some (length s))"
  "fmt_1f (env_of fs) = (\<lambda>n d. str_nat (n div d))"
  by (simp_all add: env_of_def Let_def)

lemma byte_image_upt:
  fixes b :: byte
  assumes "hi \<le> 256"
  shows "b \<in> of_nat ` {lo..<hi} \<longleftrightarrow> lo \<le> unat b \<and> unat b < hi"
proof
  assume "b \<in> of_nat ` {lo..<hi}"
  then obtain n where n: "b = of_nat n" "lo \<le> n" "n < hi" by auto
  with assms have "n < 256" by simp
  then have "unat b = n" using n(1) by (simp add: unat_of_nat)
  with n show "lo \<le> unat b \<and> unat b < hi" by simp
next
  assume "lo \<le> unat b \<and> unat b < hi"
  then have "unat b \<in> {lo..<hi}" by simp
  then have "of_nat (unat b) \<in> (of_nat ` {lo..<hi} :: byte set)" by (rule imageI)
  then show "b \<in> of_nat ` {lo..<hi}" by simp
qed

lemma text_chars_iff:
  "b \<in> set text_chars \<longleftrightarrow>
     b = 7 \<or> b = 8 \<or> b = 9 \<or> b = 10 \<or> b = 12 \<or> b = 13 \<or> b = 27 \<or> 32 \<le> b"
proof -
  have bound: "unat b < 256" using unsigned_less[of b, where ?'a = nat] by simp
  have "set text_chars = set [7, 8, 9, 10, 12, 13, 27 :: byte] \<union> of_nat ` {32..<256}"
    by (simp only: text_chars_def set_append set_map set_upt)
  then have "b \<in> set text_chars \<longleftrightarrow>
      b \<in> set [7, 8, 9, 10, 12, 13, 27 :: byte] \<or> (32 \<le> unat b \<and> unat b < 256)"
    by (simp only: Un_iff byte_image_upt[OF order_refl])
  also have "\<dots> \<longleftrightarrow> b = 7 \<or> b = 8 \<or> b = 9 \<or> b = 10 \<or> b = 12 \<or> b = 13 \<or> b = 27 \<or> 32 \<le> b"
    using bound by (auto simp: word_le_nat_alt)
  finally show ?thesis .
qed

lemma is_text_file_iff:
  "is_text_file E p \<longleftrightarrow> (\<exists>bs. read_bytes E p = Some bs \<and> list_all (\<lambda>b. b \<in> set text_chars) (take 1024 bs))"
  by (auto simp: is_text_file_def Let_def filter_empty_conv list_all_iff split: option.splits)


lemmas walk_simps =
  scan_directory.simps process_items.simps process_item.simps process_symlink.simps

lemmas eval_simps = walk_simps Let_def env_of_sel iterdir_def is_file_def is_dir_def
  should_exclude_def should_include_def relative_to_def is_safe_symlink_def
  admit_file_def process_file_def scan_finish_def item_catch_def attach_scanned_def
  attach_subdir_def rename_node_def to_node_def sort_children_def is_file_node_def
  is_dir_node_def MAX_DIRECTORY_DEPTH_def MAX_FILES_def MAX_TOTAL_SIZE_BYTES_def
  MAX_FILE_SIZE_def fresh_stats_def example_query_def path_name_def is_text_file_iff
  text_chars_iff read_file_content_def path_suffix_def lower_def lower_char_def
  startswith_dot_def char_of_eq_iff rel_str_def

lemma admit_file_cases:
  assumes "admit_file E src item r t = (ex, r', t')"
  shows "(ex = Some MaxFileSizeReachedError \<and> r' = r \<and> t' = t
            \<and> total_size t + st_size E src > MAX_TOTAL_SIZE_BYTES)
       \<or> (ex = Some MaxFilesReachedError \<and> r' = r
            \<and> t' = t\<lparr>total_files := total_files t + 1,
                       total_size := total_size t + st_size E src\<rparr>
            \<and> total_size t + st_size E src \<le> MAX_TOTAL_SIZE_BYTES
            \<and> total_files t + 1 > MAX_FILES)
       \<or> (ex = None
            \<and> (\<exists>txt. r' = r\<lparr>r_children := r_children r
                                  @ [FileNode (path_name item) (st_size E src) txt item],
                              r_size := r_size r + st_size E src,
                              r_file_count := r_file_count r + 1\<rparr>)
            \<and> t' = t\<lparr>total_files := total_files t + 1,
                       total_size := total_size t + st_size E src\<rparr>
            \<and> total_size t + st_size E src \<le> MAX_TOTAL_SIZE_BYTES
            \<and> total_files t + 1 \<le> MAX_FILES)"
  using assms by (auto simp: admit_file_def Let_def split: if_splits)


lemma scan_scenario:
  "scan_directory (env_of fs_scenario) example_query [''repo''] {} 0 fresh_stats
     = (None, Some scenario_tree, {[''repo'', ''lib''], [''repo'']},
        \<lparr>total_files = 4, total_size = 4\<rparr>)"
  by (simp add: eval_simps fs_scenario_def scenario_tree_def insert_commute)

lemma mset_sort_children: "mset (sort_children cs) = mset cs"
proof (rule multiset_eqI)
  fix x
  show "count (mset (sort_children cs)) x = count (mset cs) x"
    by (cases x)
      (simp_all add: sort_children_def Let_def is_file_node_def is_dir_node_def
        del: count_mset)
qed

lemma sort_children_single: "sort_children [c] = [c]"
proof -
  have "mset (sort_children [c]) = {#c#}" by (simp add: mset_sort_children)
  then show ?thesis by (simp only: mset_single_iff)
qed

lemma set_sort_children: "set (sort_children cs) = set cs"
  using mset_sort_children[of cs] by (metis set_mset_mset)

lemma sorted_wrt_child_le_group:
  assumes "\<forall>c \<in> set xs. child_group c = g" and "g = 0 \<or> sorted (map name xs)"
  shows "sorted_wrt child_le xs"
proof (cases "g = 0")
  case True
  with assms(1) have "\<forall>a \<in> set xs. \<forall>b \<in> set xs. child_le a b"
    by (auto simp: child_le_def)
  then show ?thesis by (simp add: sorted_wrt_iff_nth_less)
next
  case False
  with assms(2) have "sorted_wrt (\<lambda>a b. name a \<le> name b) xs"
    by (simp add: sorted_map)
  then show ?thesis
    by (rule sorted_wrt_mono_rel[rotated]) (use assms(1) in \<open>auto simp: child_le_def\<close>)
qed

lemma sorted_wrt_child_le_sort_children: "sorted_wrt child_le (sort_children cs)"
proof -
  let ?readme = "filter (\<lambda>f. lower (name f) = ''readme.md'') (filter is_file_node cs)"
  let ?other = "filter (\<lambda>f. lower (name f) \<noteq> ''readme.md'') (filter is_file_node cs)"
  let ?rf = "sort_key name (filter (\<lambda>f. \<not> startswith_dot (name f)) ?other)"
  let ?hf = "sort_key name (filter (\<lambda>f. startswith_dot (name f)) ?other)"
  let ?rd = "sort_key name (filter (\<lambda>d. \<not> startswith_dot (name d)) (filter is_dir_node cs))"
  let ?hd = "sort_key name (filter (\<lambda>d. startswith_dot (name d)) (filter is_dir_node cs))"
  have g0: "\<forall>c \<in> set ?readme. child_group c = 0"
    by (auto simp: child_group_def is_file_node_def split: node.splits)
  have g1: "\<forall>c \<in> set ?rf. child_group c = 1"
    by (auto simp: child_group_def is_file_node_def split: node.splits)
  have g2: "\<forall>c \<in> set ?hf. child_group c = 2"
    by (auto simp: child_group_def is_file_node_def split: node.splits)
  have g3: "\<forall>c \<in> set ?rd. child_group c = 3"
    by (auto simp: child_group_def is_dir_node_def split: node.splits)
  have g4: "\<forall>c \<in> set ?hd. child_group c = 4"
    by (auto simp: child_group_def is_dir_node_def split: node.splits)
  have s0: "sorted_wrt child_le ?readme" by (rule sorted_wrt_child_le_group[OF g0]) simp
  have s1: "sorted_wrt child_le ?rf" by (rule sorted_wrt_child_le_group[OF g1]) simp
  have s2: "sorted_wrt child_le ?hf" by (rule sorted_wrt_child_le_group[OF g2]) simp
  have s3: "sorted_wrt child_le ?rd" by (rule sorted_wrt_child_le_group[OF g3]) simp
  have s4: "sorted_wrt child_le ?hd" by (rule sorted_wrt_child_le_group[OF g4]) simp
  have lt: "\<And>a b. child_group a < child_group b \<Longrightarrow> child_le a b"
    by (simp add: child_le_def)
  have "sorted_wrt child_le (?readme @ ?rf @ ?hf @ ?rd @ ?hd)"
    unfolding sorted_wrt_append
    using s0 s1 s2 s3 s4 g0 g1 g2 g3 g4 by (auto intro!: lt simp del: set_filter set_sort)
  then show ?thesis by (simp add: sort_children_def Let_def)
qed



section \<open>Invariants of the walk\<close>

lemma sum_list_sort_children:
  "sum_list (map f (sort_children cs)) = (sum_list (map f cs) :: nat)"
proof -
  have "sum_mset (image_mset f (mset (sort_children cs))) = sum_mset (image_mset f (mset cs))"
    by (simp only: mset_sort_children)
  then show ?thesis by (simp only: mset_map[symmetric] sum_mset_sum_list)
qed

lemma scan_returns_node:
  assumes "depth \<le> MAX_DIRECTORY_DEPTH" "total_files st < MAX_FILES"
    "total_size st < MAX_TOTAL_SIZE_BYTES" "resolve E p \<notin> seen_paths"
  shows "\<exists>n seen' st'. scan_directory E q p seen_paths depth st = (None, Some n, seen', st')"
proof -
  obtain ex0 r0 s0 t0 where pi:
    "(case iterdir E p of
        None \<Rightarrow> (None, \<lparr>r_name = path_name p, r_size = 0, r_children = [], r_file_count = 0,
          r_dir_count = 0, r_path = p, r_ignore_content = False\<rparr>,
          insert (resolve E p) seen_paths, st)
      | Some items \<Rightarrow> process_items E q items
          \<lparr>r_name = path_name p, r_size = 0, r_children = [], r_file_count = 0,
            r_dir_count = 0, r_path = p, r_ignore_content = False\<rparr>
          (insert (resolve E p) seen_paths) st depth
          (ignore_patterns q) (local_path q) (include_patterns q)) = (ex0, r0, s0, t0)"
    by (metis prod_cases4)
  then have "ex0 = None \<or> ex0 = Some MaxFilesReachedError"
    by (auto split: option.splits dest: no_raise(2))
  moreover from assms pi
  have "scan_directory E q p seen_paths depth st = scan_finish (ex0, r0, s0, t0)"
    by (subst scan_directory.simps) (simp add: Let_def)
  ultimately show ?thesis by (auto simp: scan_finish_def)
qed

lemma scan_guard_none:
  assumes "depth > MAX_DIRECTORY_DEPTH \<or> total_files st \<ge> MAX_FILES
    \<or> total_size st \<ge> MAX_TOTAL_SIZE_BYTES \<or> resolve E p \<in> seen_paths"
  shows "scan_directory E q p seen_paths depth st = (None, None, seen_paths, st)"
  using assms by (subst scan_directory.simps) (auto simp: Let_def)

lemma scan_count:
  assumes "scan_directory E q p s d t = (ex, Some n, s', t')"
  shows "count_files n + min (total_files t) MAX_FILES \<le> min (total_files t') MAX_FILES"
proof -
  define T where "T = (\<lambda>(E::env) (q::query) (d::nat) (x::dir_result \<times> path set \<times> stats)
      (y::exn option \<times> dir_result \<times> path set \<times> stats).
      files_in (fst (snd y)) + min (total_files (snd (snd x))) MAX_FILES
        \<le> files_in (fst x) + min (total_files (snd (snd (snd y)))) MAX_FILES)"
  define N where "N = (\<lambda>(E::env) (q::query) (d::nat) (x::path set \<times> stats) (n::node)
      (y::path set \<times> stats). is_dir_node n \<and>
      count_files n + min (total_files (snd x)) MAX_FILES \<le> min (total_files (snd y)) MAX_FILES)"
  have "case Some n of None \<Rightarrow> s' = s \<and> t' = t | Some n \<Rightarrow> N E q d (s, t) n (s', t')"
  proof (rule walk_rule(1)[where T = T and N = N, OF _ _ _ _ _ _ _ _ _ assms])
    show "\<And>E q d src item r s t ex r' t'.
        admit_file E src item r t = (ex, r', t') \<Longrightarrow> prefix (local_path q) item \<Longrightarrow>
        d \<le> MAX_DIRECTORY_DEPTH \<Longrightarrow> T E q d (r, s, t) (ex, r', s, t')"
      by (auto simp: T_def files_in_def dest!: admit_file_cases)
    show "\<And>E q d r s t sd s' t' rn inc. N E q (Suc d) (s, t) sd (s', t') \<Longrightarrow>
        rn = (\<lambda>sd. sd) \<or> (\<exists>item. prefix (local_path q) item \<and> rn = rename_node item) \<Longrightarrow>
        inc = [] \<or> file_count sd > 0 \<Longrightarrow>
        d \<le> MAX_DIRECTORY_DEPTH \<Longrightarrow> T E q d (r, s, t) (None, attach_subdir r (rn sd), s', t')"
      by (auto simp: T_def N_def files_in_def attach_subdir_def rename_node_def is_dir_node_def
          split: node.splits)
    show "\<And>E q d p s t ex r' s' t'.
        d \<le> MAX_DIRECTORY_DEPTH \<Longrightarrow> total_files t < MAX_FILES \<Longrightarrow>
        total_size t < MAX_TOTAL_SIZE_BYTES \<Longrightarrow> resolve E p \<notin> s \<Longrightarrow>
        T E q d (fresh_result p, insert (resolve E p) s, t) (ex, r', s', t') \<Longrightarrow>
        ex = None \<or> ex = Some MaxFilesReachedError \<Longrightarrow>
        N E q d (s, t) (to_node (r'\<lparr>r_children := sort_children (r_children r')\<rparr>)) (s', t')"
      by (auto simp: T_def N_def to_node_def fresh_result_def is_dir_node_def files_in_def
          sum_list_sort_children)
    show "\<And>E q d r s t sd s' t'. N E q (Suc d) (s, t) sd (s', t') \<Longrightarrow>
        d \<le> MAX_DIRECTORY_DEPTH \<Longrightarrow> T E q d (r, s, t) (None, r, s', t')"
      by (auto simp: T_def N_def)
  qed (auto simp: T_def files_in_def)
  then show ?thesis by (simp add: N_def)
qed

lemma scan_wf:
  assumes "scan_directory E q p s d t = (ex, Some n, s', t')"
  shows "is_dir_node n \<and> wf_node n"
proof -
  define T where "T = (\<lambda>(E::env) (q::query) (d::nat) (x::dir_result \<times> path set \<times> stats)
      (y::exn option \<times> dir_result \<times> path set \<times> stats).
      acc_wf (fst x) \<longrightarrow> acc_wf (fst (snd y)))"
  define N where "N = (\<lambda>(E::env) (q::query) (d::nat) (x::path set \<times> stats) (n::node)
      (y::path set \<times> stats). is_dir_node n \<and> wf_node n)"
  have "case Some n of None \<Rightarrow> s' = s \<and> t' = t | Some n \<Rightarrow> N E q d (s, t) n (s', t')"
  proof (rule walk_rule(1)[where T = T and N = N, OF _ _ _ _ _ _ _ _ _ assms])
    show "\<And>E q d src item r s t ex r' t'.
        admit_file E src item r t = (ex, r', t') \<Longrightarrow> prefix (local_path q) item \<Longrightarrow>
        d \<le> MAX_DIRECTORY_DEPTH \<Longrightarrow> T E q d (r, s, t) (ex, r', s, t')"
      by (auto simp: T_def acc_wf_def child_files_def child_dirs_def dest!: admit_file_cases)
    show "\<And>E q d r s t sd s' t' rn inc. N E q (Suc d) (s, t) sd (s', t') \<Longrightarrow>
        rn = (\<lambda>sd. sd) \<or> (\<exists>item. prefix (local_path q) item \<and> rn = rename_node item) \<Longrightarrow>
        inc = [] \<or> file_count sd > 0 \<Longrightarrow>
        d \<le> MAX_DIRECTORY_DEPTH \<Longrightarrow> T E q d (r, s, t) (None, attach_subdir r (rn sd), s', t')"
      by (auto simp: T_def N_def acc_wf_def attach_subdir_def rename_node_def is_dir_node_def
          child_files_def child_dirs_def split: node.splits)
    show "\<And>E q d p s t ex r' s' t'.
        d \<le> MAX_DIRECTORY_DEPTH \<Longrightarrow> total_files t < MAX_FILES \<Longrightarrow>
        total_size t < MAX_TOTAL_SIZE_BYTES \<Longrightarrow> resolve E p \<notin> s \<Longrightarrow>
        T E q d (fresh_result p, insert (resolve E p) s, t) (ex, r', s', t') \<Longrightarrow>
        ex = None \<or> ex = Some MaxFilesReachedError \<Longrightarrow>
        N E q d (s, t) (to_node (r'\<lparr>r_children := sort_children (r_children r')\<rparr>)) (s', t')"
      by (auto simp: T_def N_def to_node_def fresh_result_def is_dir_node_def acc_wf_def
          sum_list_sort_children list_all_iff set_sort_children)
  qed (auto simp: T_def acc_wf_def)
  then show ?thesis by (simp add: N_def)
qed

lemma wf_node_aggregates:
  "wf_node n \<Longrightarrow> child_files n = count_files n \<and> nsize n = total_bytes n"
proof (induction n)
  case (FileNode n sz c p)
  then show ?case by (simp add: child_files_def)
next
  case (DirNode n sz cs fc dc p ic)
  then have "\<forall>c \<in> set cs. child_files c = count_files c \<and> nsize c = total_bytes c"
    by (auto simp: list_all_iff)
  then have "map child_files cs = map count_files cs" "map nsize cs = map total_bytes cs"
    by auto
  with DirNode.prems show ?case by (simp add: child_files_def)
qed

lemma fold_max_le:
  "fold max xs (a::nat) + d \<le> k \<longleftrightarrow> a + d \<le> k \<and> (\<forall>x \<in> set xs. x + d \<le> k)"
  by (induction xs arbitrary: a) auto


lemma scan_mono:
  assumes "scan_directory E q p s d t = (ex, Some n, s', t')"
  shows "s \<subseteq> s' \<and> total_files t \<le> total_files t' \<and> total_size t \<le> total_size t'
    \<and> (total_size t \<le> MAX_TOTAL_SIZE_BYTES \<longrightarrow> total_size t' \<le> MAX_TOTAL_SIZE_BYTES)"
proof -
  define T where "T = (\<lambda>(E::env) (q::query) (d::nat) (x::dir_result \<times> path set \<times> stats)
      (y::exn option \<times> dir_result \<times> path set \<times> stats).
      case x of (r, s, t) \<Rightarrow> case y of (ex, r', s', t') \<Rightarrow>
      s \<subseteq> s' \<and> total_files t \<le> total_files t' \<and> total_size t \<le> total_size t'
      \<and> (total_size t \<le> MAX_TOTAL_SIZE_BYTES \<longrightarrow> total_size t' \<le> MAX_TOTAL_SIZE_BYTES))"
  define N where "N = (\<lambda>(E::env) (q::query) (d::nat) (x::path set \<times> stats) (n::node)
      (y::path set \<times> stats).
      case x of (s, t) \<Rightarrow> case y of (s', t') \<Rightarrow>
      s \<subseteq> s' \<and> total_files t \<le> total_files t' \<and> total_size t \<le> total_size t'
      \<and> (total_size t \<le> MAX_TOTAL_SIZE_BYTES \<longrightarrow> total_size t' \<le> MAX_TOTAL_SIZE_BYTES))"
  have "case Some n of None \<Rightarrow> s' = s \<and> t' = t | Some n \<Rightarrow> N E q d (s, t) n (s', t')"
  proof (rule walk_rule(1)[where T = T and N = N, OF _ _ _ _ _ _ _ _ _ assms])
    show "\<And>E q d src item r s t ex r' t'.
        admit_file E src item r t = (ex, r', t') \<Longrightarrow> prefix (local_path q) item \<Longrightarrow>
        d \<le> MAX_DIRECTORY_DEPTH \<Longrightarrow> T E q d (r, s, t) (ex, r', s, t')"
      by (auto simp: T_def dest!: admit_file_cases)
    show "\<And>E q d x y ex z. T E q d x (None, y) \<Longrightarrow> T E q d y (ex, z) \<Longrightarrow> T E q d x (ex, z)"
      unfolding T_def by (clarsimp split: prod.splits) blast+
  qed (auto simp: T_def N_def split: prod.splits)
  then show ?thesis by (simp add: N_def)
qed

lemma scan_files_bound:
  assumes "scan_directory E q p s d t = (ex, Some n, s', t')"
  shows "total_files t' \<le> MAX_FILES + (Suc MAX_DIRECTORY_DEPTH - d)"
proof -
  define T where "T = (\<lambda>(E::env) (q::query) (d::nat) (x::dir_result \<times> path set \<times> stats)
      (y::exn option \<times> dir_result \<times> path set \<times> stats).
      case x of (r, s, t) \<Rightarrow> case y of (ex, r', s', t') \<Rightarrow>
      total_files t \<le> MAX_FILES + (MAX_DIRECTORY_DEPTH - d)
       \<longrightarrow> total_files t' \<le> MAX_FILES + (Suc MAX_DIRECTORY_DEPTH - d)
           \<and> (ex \<noteq> Some MaxFilesReachedError
                \<longrightarrow> total_files t' \<le> MAX_FILES + (MAX_DIRECTORY_DEPTH - d)))"
  define N where "N = (\<lambda>(E::env) (q::query) (d::nat) (x::path set \<times> stats) (n::node)
      (y::path set \<times> stats).
      total_files (snd y) \<le> MAX_FILES + (Suc MAX_DIRECTORY_DEPTH - d))"
  have "case Some n of None \<Rightarrow> s' = s \<and> t' = t | Some n \<Rightarrow> N E q d (s, t) n (s', t')"
  proof (rule walk_rule(1)[where T = T and N = N, OF _ _ _ _ _ _ _ _ _ assms])
    show "\<And>E q d src item r s t ex r' t'.
        admit_file E src item r t = (ex, r', t') \<Longrightarrow> prefix (local_path q) item \<Longrightarrow>
        d \<le> MAX_DIRECTORY_DEPTH \<Longrightarrow> T E q d (r, s, t) (ex, r', s, t')"
      by (auto simp: T_def dest!: admit_file_cases)
    show "\<And>E q d x y ex z. T E q d x (None, y) \<Longrightarrow> T E q d y (ex, z) \<Longrightarrow> T E q d x (ex, z)"
      unfolding T_def by (auto split: prod.splits)
    show "\<And>E q d p s t ex r' s' t'.
        d \<le> MAX_DIRECTORY_DEPTH \<Longrightarrow> total_files t < MAX_FILES \<Longrightarrow>
        total_size t < MAX_TOTAL_SIZE_BYTES \<Longrightarrow> resolve E p \<notin> s \<Longrightarrow>
        T E q d (fresh_result p, insert (resolve E p) s, t) (ex, r', s', t') \<Longrightarrow>
        ex = None \<or> ex = Some MaxFilesReachedError \<Longrightarrow>
        N E q d (s, t) (to_node (r'\<lparr>r_children := sort_children (r_children r')\<rparr>)) (s', t')"
      by (auto simp: T_def N_def)
    show "\<And>E q d r s t sd s' t' rn inc. N E q (Suc d) (s, t) sd (s', t') \<Longrightarrow>
        rn = (\<lambda>sd. sd) \<or> (\<exists>item. prefix (local_path q) item \<and> rn = rename_node item) \<Longrightarrow>
        inc = [] \<or> file_count sd > 0 \<Longrightarrow>
        d \<le> MAX_DIRECTORY_DEPTH \<Longrightarrow> T E q d (r, s, t) (None, attach_subdir r (rn sd), s', t')"
      by (auto simp: T_def N_def)
    show "\<And>E q d r s t sd s' t'. N E q (Suc d) (s, t) sd (s', t') \<Longrightarrow>
        d \<le> MAX_DIRECTORY_DEPTH \<Longrightarrow> T E q d (r, s, t) (None, r, s', t')"
      by (auto simp: T_def N_def)
  qed (auto simp: T_def split: prod.splits)
  then show ?thesis by (simp add: N_def)
qed

lemma scan_height:
  assumes "scan_directory E q p s d t = (ex, Some n, s', t')"
  shows "is_dir_node n \<and> dir_height n + d \<le> Suc MAX_DIRECTORY_DEPTH"
proof -
  define T where "T = (\<lambda>(E::env) (q::query) (d::nat) (x::dir_result \<times> path set \<times> stats)
      (y::exn option \<times> dir_result \<times> path set \<times> stats).
      list_all (\<lambda>c. dir_height c + d \<le> MAX_DIRECTORY_DEPTH) (r_children (fst x))
      \<longrightarrow> list_all (\<lambda>c. dir_height c + d \<le> MAX_DIRECTORY_DEPTH) (r_children (fst (snd y))))"
  define N where "N = (\<lambda>(E::env) (q::query) (d::nat) (x::path set \<times> stats) (n::node)
      (y::path set \<times> stats). is_dir_node n \<and> dir_height n + d \<le> Suc MAX_DIRECTORY_DEPTH)"
  have "case Some n of None \<Rightarrow> s' = s \<and> t' = t | Some n \<Rightarrow> N E q d (s, t) n (s', t')"
  proof (rule walk_rule(1)[where T = T and N = N, OF _ _ _ _ _ _ _ _ _ assms])
    show "\<And>E q d src item r s t ex r' t'.
        admit_file E src item r t = (ex, r', t') \<Longrightarrow> prefix (local_path q) item \<Longrightarrow>
        d \<le> MAX_DIRECTORY_DEPTH \<Longrightarrow> T E q d (r, s, t) (ex, r', s, t')"
      by (auto simp: T_def dest!: admit_file_cases)
    show "\<And>E q d r s t sd s' t' rn inc. N E q (Suc d) (s, t) sd (s', t') \<Longrightarrow>
        rn = (\<lambda>sd. sd) \<or> (\<exists>item. prefix (local_path q) item \<and> rn = rename_node item) \<Longrightarrow>
        inc = [] \<or> file_count sd > 0 \<Longrightarrow>
        d \<le> MAX_DIRECTORY_DEPTH \<Longrightarrow> T E q d (r, s, t) (None, attach_subdir r (rn sd), s', t')"
    proof -
      fix E :: env and q :: query and d r s t sd s' t' and rn :: "node \<Rightarrow> node"
        and inc :: "string list"
      assume n: "N E q (Suc d) (s, t) sd (s', t')"
        and rn: "rn = (\<lambda>sd. sd) \<or> (\<exists>item. prefix (local_path q) item \<and> rn = rename_node item)"
      from n obtain a b cs fc dc pp ic where sd: "sd = DirNode a b cs fc dc pp ic"
        by (cases sd) (auto simp: N_def is_dir_node_def)
      from rn have "dir_height (rn sd) = dir_height sd"
        by (auto simp: sd rename_node_def)
      with n show "T E q d (r, s, t) (None, attach_subdir r (rn sd), s', t')"
        by (auto simp: T_def N_def attach_subdir_def)
    qed
    show "\<And>E q d p s t ex r' s' t'.
        d \<le> MAX_DIRECTORY_DEPTH \<Longrightarrow> total_files t < MAX_FILES \<Longrightarrow>
        total_size t < MAX_TOTAL_SIZE_BYTES \<Longrightarrow> resolve E p \<notin> s \<Longrightarrow>
        T E q d (fresh_result p, insert (resolve E p) s, t) (ex, r', s', t') \<Longrightarrow>
        ex = None \<or> ex = Some MaxFilesReachedError \<Longrightarrow>
        N E q d (s, t) (to_node (r'\<lparr>r_children := sort_children (r_children r')\<rparr>)) (s', t')"
    proof -
      fix E :: env and q :: query and d p s t ex r' s' t'
      assume d: "d \<le> MAX_DIRECTORY_DEPTH"
        and T: "T E q d (fresh_result p, insert (resolve E p) s, t) (ex, r', s', t')"
      from T have "\<forall>c \<in> set (r_children r'). dir_height c + d \<le> MAX_DIRECTORY_DEPTH"
        by (simp add: T_def fresh_result_def list_all_iff)
      with d have "fold max (map dir_height (sort_children (r_children r'))) 0 + d
          \<le> MAX_DIRECTORY_DEPTH"
        by (simp add: fold_max_le set_sort_children)
      then show "N E q d (s, t) (to_node (r'\<lparr>r_children := sort_children (r_children r')\<rparr>))
          (s', t')"
        by (simp add: N_def to_node_def is_dir_node_def)
    qed
  qed (auto simp: T_def)
  then show ?thesis by (simp add: N_def)
qed

lemma scan_paths_under:
  assumes "scan_directory E q p s d t = (ex, Some n, s', t')"
  shows "is_dir_node n \<and> paths_under (local_path q) n"
proof -
  define T where "T = (\<lambda>(E::env) (q::query) (d::nat) (x::dir_result \<times> path set \<times> stats)
      (y::exn option \<times> dir_result \<times> path set \<times> stats).
      list_all (paths_under (local_path q)) (r_children (fst x))
      \<longrightarrow> list_all (paths_under (local_path q)) (r_children (fst (snd y))))"
  define N where "N = (\<lambda>(E::env) (q::query) (d::nat) (x::path set \<times> stats) (n::node)
      (y::path set \<times> stats). is_dir_node n \<and> paths_under (local_path q) n)"
  have "case Some n of None \<Rightarrow> s' = s \<and> t' = t | Some n \<Rightarrow> N E q d (s, t) n (s', t')"
  proof (rule walk_rule(1)[where T = T and N = N, OF _ _ _ _ _ _ _ _ _ assms])
    show "\<And>E q d src item r s t ex r' t'.
        admit_file E src item r t = (ex, r', t') \<Longrightarrow> prefix (local_path q) item \<Longrightarrow>
        d \<le> MAX_DIRECTORY_DEPTH \<Longrightarrow> T E q d (r, s, t) (ex, r', s, t')"
      by (auto simp: T_def dest!: admit_file_cases)
    show "\<And>E q d r s t sd s' t' rn inc. N E q (Suc d) (s, t) sd (s', t') \<Longrightarrow>
        rn = (\<lambda>sd. sd) \<or> (\<exists>item. prefix (local_path q) item \<and> rn = rename_node item) \<Longrightarrow>
        inc = [] \<or> file_count sd > 0 \<Longrightarrow>
        d \<le> MAX_DIRECTORY_DEPTH \<Longrightarrow> T E q d (r, s, t) (None, attach_subdir r (rn sd), s', t')"
      by (auto simp: T_def N_def attach_subdir_def rename_node_def is_dir_node_def
          split: node.splits)
    show "\<And>E q d p s t ex r' s' t'.
        d \<le> MAX_DIRECTORY_DEPTH \<Longrightarrow> total_files t < MAX_FILES \<Longrightarrow>
        total_size t < MAX_TOTAL_SIZE_BYTES \<Longrightarrow> resolve E p \<notin> s \<Longrightarrow>
        T E q d (fresh_result p, insert (resolve E p) s, t) (ex, r', s', t') \<Longrightarrow>
        ex = None \<or> ex = Some MaxFilesReachedError \<Longrightarrow>
        N E q d (s, t) (to_node (r'\<lparr>r_children := sort_children (r_children r')\<rparr>)) (s', t')"
      by (auto simp: T_def N_def to_node_def fresh_result_def is_dir_node_def list_all_iff
          set_sort_children)
  qed (auto simp: T_def)
  then show ?thesis by (simp add: N_def)
qed

lemma scan_unfold:
  assumes "depth \<le> MAX_DIRECTORY_DEPTH" "total_files st < MAX_FILES"
    "total_size st < MAX_TOTAL_SIZE_BYTES" "resolve E p \<notin> seen_paths"
  shows "scan_directory E q p seen_paths depth st =
    scan_finish (case iterdir E p of
        None \<Rightarrow> (None, fresh_result p, insert (resolve E p) seen_paths, st)
      | Some items \<Rightarrow> process_items E q items (fresh_result p)
          (insert (resolve E p) seen_paths) st depth
          (ignore_patterns q) (local_path q) (include_patterns q))"
  using assms
  by (subst scan_directory.simps) (simp add: Let_def fresh_result_def cong: option.case_cong)

lemma scan_none_unchanged:
  assumes "scan_directory E q p s d t = (ex, None, s', t')"
  shows "s' = s \<and> t' = t"
proof -
  show ?thesis
    using walk_rule(1)[of "\<lambda>E q d x y. True" "\<lambda>E q d x n y. True" E q p s d t ex None s' t']
      assms by simp
qed

lemma process_symlink_saturated:
  assumes "MAX_FILES \<le> total_files t"
    and "process_symlink E item q r s t d base inc = (ex, r', s', t')"
  shows "r' = r \<and> s' = s \<and> MAX_FILES \<le> total_files t'"
  using assms
  by (subst (asm) process_symlink.simps)
    (auto simp: Let_def scan_guard_none attach_scanned_def
      split: if_splits prod.splits dest!: admit_file_cases)

lemma process_item_saturated:
  assumes "MAX_FILES \<le> total_files t"
    and "process_item E item q r s t d ign base inc = (ex, r', s', t')"
  shows "same_entries r r' \<and> s' = s \<and> MAX_FILES \<le> total_files t'"
proof (cases "should_exclude E item base ign \<or>
      (is_file E item \<and> include_patterns q \<noteq> [] \<and> \<not> should_include E item base inc)")
  case True
  with assms show ?thesis
    by (subst (asm) process_item.simps) (auto simp: same_entries_def split: if_splits)
next
  case False
  obtain ex1 r1 s1 t1 where sl:
    "(if is_symlink E item then process_symlink E item q r s t d base inc
      else (None, r, s, t)) = (ex1, r1, s1, t1)"
    by (metis prod_cases4)
  then have one: "r1 = r \<and> s1 = s \<and> MAX_FILES \<le> total_files t1"
    using assms(1) by (auto split: if_splits dest: process_symlink_saturated)
  from False have ne: "\<not> should_exclude E item base ign"
    "\<not> (is_file E item \<and> include_patterns q \<noteq> [] \<and> \<not> should_include E item base inc)"
    by auto
  from assms(2) have "item_catch
      (if ex1 \<noteq> None then (ex1, r1, s1, t1)
       else if is_file E item
       then (case process_file E item r1 t1 of (ex', r', t') \<Rightarrow> (ex', r', s1, t'))
       else if is_dir E item
       then attach_scanned inc (\<lambda>sd. sd) r1 (scan_directory E q item s1 (d + 1) t1)
       else (None, r1, s1, t1)) = (ex, r', s', t')"
    by (subst (asm) process_item.simps) (simp only: ne if_False sl prod.case)
  with one show ?thesis
    by (auto simp: same_entries_def item_catch_def process_file_def scan_guard_none
        attach_scanned_def split: if_splits prod.splits dest!: admit_file_cases)
qed

lemma process_items_saturated:
  assumes "MAX_FILES \<le> total_files t"
    and "process_items E q items r s t d ign base inc = (ex, r', s', t')"
  shows "same_entries r r' \<and> s' = s \<and> MAX_FILES \<le> total_files t'"
  using assms
proof (induction items arbitrary: r t)
  case Nil
  then show ?case by (simp add: process_items.simps same_entries_def)
next
  case (Cons item rest)
  obtain ex1 r1 s1 t1 where pi:
    "process_item E item q r s t d ign base inc = (ex1, r1, s1, t1)"
    by (metis prod_cases4)
  from process_item_saturated[OF Cons.prems(1) pi]
  have one: "same_entries r r1" "s1 = s" "MAX_FILES \<le> total_files t1" by auto
  show ?case
  proof (cases "ex1 = None")
    case True
    with pi Cons.prems(2)
    have "process_items E q rest r1 s t1 d ign base inc = (ex, r', s', t')"
      by (simp add: process_items.simps one(2))
    from Cons.IH[OF one(3) this] one(1) show ?thesis
      by (auto simp: same_entries_def)
  next
    case False
    with pi Cons.prems(2) have "(ex, r', s', t') = (ex1, r1, s1, t1)"
      by (simp add: process_items.simps)
    with one show ?thesis by simp
  qed
qed

lemma process_item_plain_file:
  assumes "is_file E item" "\<not> is_symlink E item" "prefix base item" "ign = []"
    "include_patterns q = []"
  shows "process_item E item q r s st d ign base inc =
    item_catch (case admit_file E item item r st of (ex, r', t') \<Rightarrow> (ex, r', s, t'))"
  using assms
  by (subst process_item.simps)
    (simp add: should_exclude_def relative_to_def process_file_def)

lemma plain_files_loop:
  assumes "\<forall>item \<in> set items. is_file E item \<and> \<not> is_symlink E item \<and> st_size E item = 0
      \<and> prefix base item"
    and "include_patterns q = []" "ign = []"
    and "total_files st \<le> MAX_FILES" "total_size st \<le> MAX_TOTAL_SIZE_BYTES"
  shows "snd (snd (process_items E q items r s st d ign base inc))
    = (s, st\<lparr>total_files := min (total_files st + length items) (Suc MAX_FILES)\<rparr>)"
  using assms(1,4,5)
proof (induction items arbitrary: r st)
  case Nil
  then show ?case by (simp add: process_items.simps min_def)
next
  case (Cons item rest)
  from Cons.prems(1) have it: "is_file E item" "\<not> is_symlink E item" "st_size E item = 0"
    "prefix base item" by auto
  note pi = process_item_plain_file[OF it(1,2,4) assms(3,2), of r s st d inc]
  show ?case
  proof (cases "total_files st < MAX_FILES")
    case True
    let ?st1 = "st\<lparr>total_files := Suc (total_files st)\<rparr>"
    from True Cons.prems(3) it(3) obtain r1 where
      step: "process_item E item q r s st d ign base inc = (None, r1, s, ?st1)"
      by (auto simp: pi admit_file_def Let_def item_catch_def)
    have "snd (snd (process_items E q rest r1 s ?st1 d ign base inc))
      = (s, ?st1\<lparr>total_files := min (total_files ?st1 + length rest) (Suc MAX_FILES)\<rparr>)"
      using Cons.prems True by (intro Cons.IH) auto
    with step show ?thesis by (simp add: process_items.simps)
  next
    case False
    with Cons.prems(2) have eq: "total_files st = MAX_FILES" by simp
    with Cons.prems(3) it(3)
    have "process_item E item q r s st d ign base inc
      = (Some MaxFilesReachedError, r, s, st\<lparr>total_files := Suc (total_files st)\<rparr>)"
      by (auto simp: pi admit_file_def Let_def item_catch_def)
    then show ?thesis using eq by (simp add: process_items.simps min_def)
  qed
qed

lemma map_of_flat:
  "n \<in> set ns \<Longrightarrow> map_of (map (\<lambda>n. ([''repo'', n], File [])) ns) [''repo'', n] = Some (File [])"
  by (induction ns) auto

lemma fs_flat_item:
  assumes "n \<in> set flat_names"
  shows "map_of fs_flat [''repo'', n] = Some (File [])"
  using assms by (simp add: fs_flat_def map_of_flat)

lemma walk_total: "All scan_directory_process_items_process_item_process_symlink_dom"
  by (relation "inv_image (less_than <*lex*> less_than) walk_rank")
    (auto simp: walk_rank_def MAX_DIRECTORY_DEPTH_def)

lemma items_seen_mono:
  assumes "process_items E q items r s t d ign (local_path q) inc = (ex, r', s', t')"
    and "d \<le> MAX_DIRECTORY_DEPTH"
  shows "s \<subseteq> s'"
proof -
  define T where "T = (\<lambda>(E::env) (q::query) (d::nat) (x::dir_result \<times> path set \<times> stats)
      (y::exn option \<times> dir_result \<times> path set \<times> stats). fst (snd x) \<subseteq> fst (snd (snd y)))"
  define N where "N = (\<lambda>(E::env) (q::query) (d::nat) (x::path set \<times> stats) (n::node)
      (y::path set \<times> stats). fst x \<subseteq> fst y)"
  have "T E q d (r, s, t) (ex, r', s', t')"
  proof (rule walk_rule(2)[where T = T and N = N, OF _ _ _ _ _ _ _ _ _ assms(1) refl assms(2)])
    show "\<And>E q d src item r s t ex r' t'.
        admit_file E src item r t = (ex, r', t') \<Longrightarrow> prefix (local_path q) item \<Longrightarrow>
        d \<le> MAX_DIRECTORY_DEPTH \<Longrightarrow> T E q d (r, s, t) (ex, r', s, t')"
      by (simp add: T_def)
  qed (auto simp: T_def N_def)
  then show ?thesis by (simp add: T_def)
qed

lemma scan_marks_visited:
  assumes "scan_directory E q p s d t = (ex, Some n, s', t')"
  shows "resolve E p \<notin> s \<and> insert (resolve E p) s \<subseteq> s'"
proof -
  have g: "d \<le> MAX_DIRECTORY_DEPTH" "total_files t < MAX_FILES"
    "total_size t < MAX_TOTAL_SIZE_BYTES" "resolve E p \<notin> s"
    using assms scan_guard_none[of d t E p s q] by (auto simp: not_le[symmetric])
  obtain ex0 r0 s0 t0 where pi:
    "(case iterdir E p of
        None \<Rightarrow> (None, fresh_result p, insert (resolve E p) s, t)
      | Some items \<Rightarrow> process_items E q items (fresh_result p) (insert (resolve E p) s) t d
          (ignore_patterns q) (local_path q) (include_patterns q)) = (ex0, r0, s0, t0)"
    by (metis prod_cases4)
  then have "insert (resolve E p) s \<subseteq> s0"
    using g(1) by (auto split: option.splits dest: items_seen_mono)
  moreover from assms pi have "s' = s0"
    by (simp add: scan_unfold[OF g] scan_finish_def split: if_splits)
  ultimately show ?thesis using g(4) by simp
qed

lemma process_item_visited_symlink:
  assumes "is_symlink E item" "resolve E item \<in> s"
  shows "\<exists>r'. process_item E item q r s t d ign base inc = (None, r', s, t) \<and> same_entries r r'"
proof -
  have sl: "process_symlink E item q r s t d base inc = (Some AlreadyVisitedError, r, s, t)"
    using assms by (subst process_symlink.simps) (simp add: Let_def)
  show ?thesis
    using assms(1)
    by (subst process_item.simps)
      (auto simp: sl item_catch_def same_entries_def)
qed

lemma is_safe_symlink_prefix:
  "is_safe_symlink E item base \<longleftrightarrow> prefix (resolve E base) (resolve E item)"
  by (auto simp: is_safe_symlink_def Let_def strict_prefix_def)

lemma process_item_unsafe_symlink:
  assumes "is_symlink E item" "\<not> is_safe_symlink E item base"
  shows "\<exists>r'. process_item E item q r s t d ign base inc = (None, r', s, t) \<and> same_entries r r'"
proof -
  have sl: "process_symlink E item q r s t d base inc = (Some AlreadyVisitedError, r, s, t)"
    using assms by (subst process_symlink.simps) simp
  show ?thesis
    using assms(1)
    by (subst process_item.simps)
      (auto simp: sl item_catch_def same_entries_def)
qed

lemma process_item_plain_dir:
  assumes "\<not> should_exclude E item base ign" "is_dir E item" "\<not> is_symlink E item"
  shows "process_item E item q r s t d ign base inc =
    attach_scanned inc (\<lambda>sd. sd) r (scan_directory E q item s (d + 1) t)"
proof -
  obtain ex nd s' t' where sc: "scan_directory E q item s (d + 1) t = (ex, nd, s', t')"
    by (metis prod_cases4)
  then have "ex = None" by (rule no_raise(1))
  with assms sc show ?thesis
    by (subst process_item.simps)
      (auto simp: is_file_def is_dir_def item_catch_def attach_scanned_def
        split: option.splits)
qed

lemma scan_include:
  "scan_directory (env_of fs_include) py_query [''repo''] {} 0 fresh_stats
     = (None, Some include_tree, {[''repo'', ''docs''], [''repo'', ''lib''], [''repo'']},
        \<lparr>total_files = 2, total_size = 2\<rparr>)"
  by (simp add: eval_simps py_query_def fs_include_def include_tree_def insert_commute)

lemma paths_under_preorder:
  "paths_under base n \<Longrightarrow> \<forall>f \<in> set (preorder_files n). prefix base (npath f)"
  by (induction n) (auto simp: list_all_iff)

lemma extract_ok:
  "paths_under (local_path q) n \<Longrightarrow>
     extract_files_content q n mfs acc
       = Inr (acc @ map (\<lambda>f. \<lparr>fi_path = rel_str (drop (length (local_path q)) (npath f)),
                                fi_content = (if nsize f > mfs then None else Some (content f)),
                                fi_size = nsize f\<rparr>)
                      (filter (\<lambda>f. content f \<noteq> ''[Non-text file]'') (preorder_files n)))"
  "list_all (paths_under (local_path q)) cs \<Longrightarrow>
     extract_children q cs mfs acc
       = Inr (acc @ map (\<lambda>f. \<lparr>fi_path = rel_str (drop (length (local_path q)) (npath f)),
                                fi_content = (if nsize f > mfs then None else Some (content f)),
                                fi_size = nsize f\<rparr>)
                      (filter (\<lambda>f. content f \<noteq> ''[Non-text file]'')
                         (concat (map preorder_files cs))))"
proof (induction q n mfs acc and q cs mfs acc
    rule: extract_files_content_extract_children.induct)
  case (1 q n sz c p mfs files)
  then show ?case by (simp add: relative_to_def Let_def)
next
  case (2 q n sz cs fc dc p ic mfs files)
  then show ?case by simp
next
  case (3 q mfs files)
  then show ?case by simp
next
  case (4 q child cs mfs files)
  from "4.prems" have c: "paths_under (local_path q) child"
    and r: "list_all (paths_under (local_path q)) cs" by simp_all
  from "4.IH"(1)[OF c] "4.IH"(2)[OF _ r] show ?case by simp
qed

lemma foldl_content:
  "foldl (\<lambda>output file. if c file then output else output @ g file) acc files
     = acc @ concat (map (\<lambda>file. if c file then [] else g file) files)"
  by (induction files arbitrary: acc) simp_all

lemma content_string_blocks:
  assumes "\<forall>f \<in> set fs. prefix (local_path q) (npath f)"
  shows "create_file_content_string
      (map (\<lambda>f. \<lparr>fi_path = rel_str (drop (length (local_path q)) (npath f)),
                  fi_content = (if nsize f > mfs then None else Some (content f)),
                  fi_size = nsize f\<rparr>)
         (filter (\<lambda>f. content f \<noteq> ''[Non-text file]'') fs))
     = concat (map (file_block q) (filter (code_rendered mfs) fs))"
  using assms
proof (induction fs)
  case Nil
  then show ?case by (simp add: create_file_content_string_def)
next
  case (Cons f fs)
  then have IH: "create_file_content_string
      (map (\<lambda>f. \<lparr>fi_path = rel_str (drop (length (local_path q)) (npath f)),
                  fi_content = (if nsize f > mfs then None else Some (content f)),
                  fi_size = nsize f\<rparr>)
         (filter (\<lambda>f. content f \<noteq> ''[Non-text file]'') fs))
     = concat (map (file_block q) (filter (code_rendered mfs) fs))"
    and pf: "prefix (local_path q) (npath f)" by simp_all
  from pf have blk: "file_block q f = separator
      @ (''File: '' @ rel_str (drop (length (local_path q)) (npath f)) @ newline) @ separator
      @ (content f @ newline @ newline)"
    by (simp add: file_block_def relative_to_def)
  have el: "code_rendered mfs f \<longleftrightarrow>
      content f \<noteq> ''[Non-text file]'' \<and> \<not> mfs < nsize f \<and> content f \<noteq> []"
    by (auto simp: code_rendered_def spec_rendered_def)
  from IH show ?case
    unfolding create_file_content_string_def foldl_content
    by (simp add: el content_falsy_def blk)
qed

lemma filtered_loop:
  assumes "list_all (\<lambda>item. should_exclude E item base ign
      \<or> (is_file E item \<and> include_patterns q \<noteq> [] \<and> \<not> should_include E item base inc)) items"
  shows "\<exists>r'. process_items E q items r s t d ign base inc = (None, r', s, t)
    \<and> same_entries r r'"
  using assms
proof (induction items arbitrary: r)
  case Nil
  then show ?case by (simp add: process_items.simps same_entries_def)
next
  case (Cons item rest)
  from Cons.prems have it: "should_exclude E item base ign
      \<or> (is_file E item \<and> include_patterns q \<noteq> [] \<and> \<not> should_include E item base inc)"
    and rest: "list_all (\<lambda>item. should_exclude E item base ign
      \<or> (is_file E item \<and> include_patterns q \<noteq> [] \<and> \<not> should_include E item base inc)) rest"
    by simp_all
  from it have "\<exists>r1. process_item E item q r s t d ign base inc = (None, r1, s, t)
      \<and> same_entries r r1"
    by (subst process_item.simps) (auto simp: same_entries_def)
  then obtain r1 where one: "process_item E item q r s t d ign base inc = (None, r1, s, t)"
    and se: "same_entries r r1"
    by blast
  from Cons.IH[OF rest, of r1] obtain r' where
    "process_items E q rest r1 s t d ign base inc = (None, r', s, t)" "same_entries r1 r'"
    by blast
  with one se show ?case
    by (auto simp: process_items.simps same_entries_def)
qed

lemma str_nat_zero: "str_nat 0 = ''0''"
  by (simp add: str_nat.simps char_of_eq_iff)

lemma summary_shape:
  "\<exists>pre post. create_summary_string q n
     = pre @ ''Files analyzed: '' @ str_nat (file_count n) @ newline @ post"
proof -
  let ?pre = "case user_name q of
      Some u \<Rightarrow> ''Repository: '' @ u @ ''/'' @ repo_name q @ newline
    | None \<Rightarrow> ''Repository: '' @ slug q @ newline"
  let ?sub = "if subpath q \<noteq> ''/'' then ''Subpath: '' @ subpath q @ newline else []"
  let ?tail = "if truthy (commit q) then ''Commit: '' @ the (commit q) @ newline
    else if branch q \<noteq> None \<and> branch q \<noteq> Some ''main'' \<and> branch q \<noteq> Some ''master''
              \<and> truthy (branch q)
    then ''Branch: '' @ the (branch q) @ newline else []"
  have "create_summary_string q n
      = ?pre @ ''Files analyzed: '' @ str_nat (file_count n) @ newline @ (?sub @ ?tail)"
    by (simp add: create_summary_string_def Let_def)
  then show ?thesis by blast
qed

lemma ingest_directory_ok:
  "\<exists>n seen' st' files. scan_directory E q p {} 0 fresh_stats = (None, Some n, seen', st')
     \<and> extract_files_content q n (max_file_size q) [] = Inr files
     \<and> ingest_directory E p q
        = Inr ((let summary = create_summary_string q n;
                    tree = ''Directory structure:'' @ newline
                             @ create_tree_structure q n [] True;
                    formatted_tokens = generate_token_string E
                        (tree @ create_file_content_string files)
                in if truthy formatted_tokens
                   then summary @ newline @ ''Estimated tokens: '' @ the formatted_tokens
                   else summary),
               ''Directory structure:'' @ newline @ create_tree_structure q n [] True,
               create_file_content_string files)"
proof -
  obtain n seen' st' where sc: "scan_directory E q p {} 0 fresh_stats = (None, Some n, seen', st')"
    using scan_returns_node[of 0 fresh_stats E p "{}" q]
    by (auto simp: fresh_stats_def MAX_FILES_def MAX_TOTAL_SIZE_BYTES_def)
  from scan_paths_under[OF sc] have pu: "paths_under (local_path q) n" by simp
  from extract_ok(1)[OF pu, of "max_file_size q" "[]"] obtain files where
    ex: "extract_files_content q n (max_file_size q) [] = Inr files" by blast
  show ?thesis
    using sc ex by (simp add: ingest_directory_def Let_def)
qed

lemma scan_filtered:
  assumes "case iterdir E p of None \<Rightarrow> True
    | Some items \<Rightarrow>
        list_all (\<lambda>item. should_exclude E item (local_path q) (ignore_patterns q)
          \<or> (is_file E item \<and> include_patterns q \<noteq> []
              \<and> \<not> should_include E item (local_path q) (include_patterns q))) items"
  shows "\<exists>ic. scan_directory E q p {} 0 fresh_stats
    = (None, Some (DirNode (path_name p) 0 [] 0 0 p ic), {resolve E p}, fresh_stats)"
proof -
  have un: "scan_directory E q p {} 0 fresh_stats =
    scan_finish (case iterdir E p of
        None \<Rightarrow> (None, fresh_result p, insert (resolve E p) {}, fresh_stats)
      | Some items \<Rightarrow> process_items E q items (fresh_result p)
          (insert (resolve E p) {}) fresh_stats 0
          (ignore_patterns q) (local_path q) (include_patterns q))"
    by (rule scan_unfold)
      (simp_all add: fresh_stats_def MAX_FILES_def MAX_TOTAL_SIZE_BYTES_def)
  have "\<exists>r'. (case iterdir E p of
        None \<Rightarrow> (None, fresh_result p, insert (resolve E p) {}, fresh_stats)
      | Some items \<Rightarrow> process_items E q items (fresh_result p)
          (insert (resolve E p) {}) fresh_stats 0
          (ignore_patterns q) (local_path q) (include_patterns q))
      = (None, r', {resolve E p}, fresh_stats) \<and> same_entries (fresh_result p) r'"
  proof (cases "iterdir E p")
    case None
    then show ?thesis by (simp add: same_entries_def)
  next
    case (Some items)
    with assms filtered_loop[of E "local_path q" "ignore_patterns q" q "include_patterns q"
        items "fresh_result p" "{resolve E p}" fresh_stats 0]
    show ?thesis by simp
  qed
  then obtain r' where
    "scan_directory E q p {} 0 fresh_stats = scan_finish (None, r', {resolve E p}, fresh_stats)"
    and "same_entries (fresh_result p) r'"
    using un by auto
  then show ?thesis
    by (simp add: scan_finish_def to_node_def same_entries_def fresh_result_def
        sort_children_def)
qed

subsection \<open>What the loop has built is returned\<close>

lemma scan_exact_count:
  assumes "scan_directory E q p s d t = (ex, Some n, s', t')"
  shows "file_count n = count_files n
    \<and> count_files n + min (total_files t) MAX_FILES = min (total_files t') MAX_FILES"
proof -
  define T where "T = (\<lambda>(E::env) (q::query) (d::nat) (x::dir_result \<times> path set \<times> stats)
      (y::exn option \<times> dir_result \<times> path set \<times> stats).
      r_file_count (fst x) = files_in (fst x)
      \<longrightarrow> r_file_count (fst (snd y)) = files_in (fst (snd y))
          \<and> files_in (fst (snd y)) + min (total_files (snd (snd x))) MAX_FILES
              = files_in (fst x) + min (total_files (snd (snd (snd y)))) MAX_FILES)"
  define N where "N = (\<lambda>(E::env) (q::query) (d::nat) (x::path set \<times> stats) (n::node)
      (y::path set \<times> stats). is_dir_node n \<and> file_count n = count_files n
      \<and> count_files n + min (total_files (snd x)) MAX_FILES = min (total_files (snd y)) MAX_FILES)"
  have "case Some n of None \<Rightarrow> s' = s \<and> t' = t | Some n \<Rightarrow> N E q d (s, t) n (s', t')"
  proof (rule walk_rule(1)[where T = T and N = N, OF _ _ _ _ _ _ _ _ _ assms])
    show "\<And>E q d src item r s t ex r' t'.
        admit_file E src item r t = (ex, r', t') \<Longrightarrow> prefix (local_path q) item \<Longrightarrow>
        d \<le> MAX_DIRECTORY_DEPTH \<Longrightarrow> T E q d (r, s, t) (ex, r', s, t')"
      by (auto simp: T_def files_in_def dest!: admit_file_cases)
    show "\<And>E q d r s t sd s' t' rn inc. N E q (Suc d) (s, t) sd (s', t') \<Longrightarrow>
        rn = (\<lambda>sd. sd) \<or> (\<exists>item. prefix (local_path q) item \<and> rn = rename_node item) \<Longrightarrow>
        inc = [] \<or> file_count sd > 0 \<Longrightarrow>
        d \<le> MAX_DIRECTORY_DEPTH \<Longrightarrow> T E q d (r, s, t) (None, attach_subdir r (rn sd), s', t')"
      by (auto simp: T_def N_def files_in_def attach_subdir_def rename_node_def is_dir_node_def
          split: node.splits)
    show "\<And>E q d p s t ex r' s' t'.
        d \<le> MAX_DIRECTORY_DEPTH \<Longrightarrow> total_files t < MAX_FILES \<Longrightarrow>
        total_size t < MAX_TOTAL_SIZE_BYTES \<Longrightarrow> resolve E p \<notin> s \<Longrightarrow>
        T E q d (fresh_result p, insert (resolve E p) s, t) (ex, r', s', t') \<Longrightarrow>
        ex = None \<or> ex = Some MaxFilesReachedError \<Longrightarrow>
        N E q d (s, t) (to_node (r'\<lparr>r_children := sort_children (r_children r')\<rparr>)) (s', t')"
      by (auto simp: T_def N_def to_node_def fresh_result_def is_dir_node_def files_in_def
          sum_list_sort_children)
    show "\<And>E q d r s t sd s' t'. N E q (Suc d) (s, t) sd (s', t') \<Longrightarrow>
        file_count sd = 0 \<Longrightarrow>
        d \<le> MAX_DIRECTORY_DEPTH \<Longrightarrow> T E q d (r, s, t) (None, r, s', t')"
      by (auto simp: T_def N_def)
    show "\<And>E q d x y ex z. T E q d x (None, y) \<Longrightarrow> T E q d y (ex, z) \<Longrightarrow> T E q d x (ex, z)"
      unfolding T_def by auto
  qed (auto simp: T_def files_in_def)
  then show ?thesis by (simp add: N_def)
qed

lemma process_items_append:
  "process_items E q (xs @ ys) r s t d ign base inc =
     (case process_items E q xs r s t d ign base inc of
        (ex, r1, s1, t1) \<Rightarrow>
          if ex = None then process_items E q ys r1 s1 t1 d ign base inc
          else (ex, r1, s1, t1))"
proof (induction xs arbitrary: r s t)
  case Nil
  then show ?case by (simp add: process_items.simps)
next
  case (Cons x xs)
  obtain ex1 r1 s1 t1 where pi:
    "process_item E x q r s t d ign base inc = (ex1, r1, s1, t1)"
    by (metis prod_cases4)
  show ?case
    by (simp add: process_items.simps pi Cons.IH)
qed

lemma items_children_prefix:
  assumes "process_items E q items r s t d ign (local_path q) inc = (ex, r', s', t')"
    and "d \<le> MAX_DIRECTORY_DEPTH"
  shows "prefix (r_children r) (r_children r')"
proof -
  define T where "T = (\<lambda>(E::env) (q::query) (d::nat) (x::dir_result \<times> path set \<times> stats)
      (y::exn option \<times> dir_result \<times> path set \<times> stats).
      prefix (r_children (fst x)) (r_children (fst (snd y))))"
  define N where "N = (\<lambda>(E::env) (q::query) (d::nat) (x::path set \<times> stats) (n::node)
      (y::path set \<times> stats). True)"
  have "T E q d (r, s, t) (ex, r', s', t')"
  proof (rule walk_rule(2)[where T = T and N = N, OF _ _ _ _ _ _ _ _ _ assms(1) refl assms(2)])
    show "\<And>E q d src item r s t ex r' t'.
        admit_file E src item r t = (ex, r', t') \<Longrightarrow> prefix (local_path q) item \<Longrightarrow>
        d \<le> MAX_DIRECTORY_DEPTH \<Longrightarrow> T E q d (r, s, t) (ex, r', s, t')"
      by (auto simp: T_def dest!: admit_file_cases)
    show "\<And>E q d x y ex z. T E q d x (None, y) \<Longrightarrow> T E q d y (ex, z) \<Longrightarrow> T E q d x (ex, z)"
      unfolding T_def by (auto intro: prefix_order.trans)
  qed (auto simp: T_def N_def attach_subdir_def)
  then show ?thesis by (simp add: T_def)
qed

lemma scan_keeps_partial:
  assumes sc: "scan_directory E q p s d t = (ex, Some n, s', t')"
    and it: "iterdir E p = Some (pre @ rest)"
    and pr: "process_items E q pre (fresh_result p) (insert (resolve E p) s) t d
        (ignore_patterns q) (local_path q) (include_patterns q) = (ex1, r1, s1, t1)"
  shows "mset (r_children r1) \<subseteq># mset (children n)"
proof -
  have g: "d \<le> MAX_DIRECTORY_DEPTH" "total_files t < MAX_FILES"
    "total_size t < MAX_TOTAL_SIZE_BYTES" "resolve E p \<notin> s"
    using sc scan_guard_none[of d t E p s q] by (auto simp: not_le[symmetric])
  obtain ex0 r0 s0 t0 where all: "process_items E q (pre @ rest) (fresh_result p)
      (insert (resolve E p) s) t d (ignore_patterns q) (local_path q) (include_patterns q)
      = (ex0, r0, s0, t0)"
    by (metis prod_cases4)
  have "prefix (r_children r1) (r_children r0)"
  proof (cases "ex1 = None")
    case True
    with all pr have "process_items E q rest r1 s1 t1 d (ignore_patterns q) (local_path q)
        (include_patterns q) = (ex0, r0, s0, t0)"
      by (simp add: process_items_append)
    then show ?thesis using g(1) by (rule items_children_prefix)
  next
    case False
    with all pr show ?thesis by (simp add: process_items_append)
  qed
  then have sub: "mset (r_children r1) \<subseteq># mset (r_children r0)"
    by (auto simp: prefix_def)
  from sc it all have "scan_finish (ex0, r0, s0, t0) = (ex, Some n, s', t')"
    by (simp add: scan_unfold[OF g])
  then have "n = to_node (r0\<lparr>r_children := sort_children (r_children r0)\<rparr>)"
    by (auto dest: scan_finish_cases)
  then have "mset (children n) = mset (r_children r0)"
    by (simp add: to_node_def mset_sort_children)
  with sub show ?thesis by simp
qed

lemma scan_flat_stats:
  "snd (snd (snd (scan_directory (env_of fs_flat) example_query [''repo''] {} 0 fresh_stats)))
     = \<lparr>total_files = 10001, total_size = 0\<rparr>"
proof -
  let ?E = "env_of fs_flat"
  let ?items = "map (\<lambda>n. [''repo''] @ [n]) flat_names"
  have root: "map_of fs_flat [''repo''] = Some (Dir flat_names)"
    by (simp add: fs_flat_def)
  have it: "iterdir ?E [''repo''] = Some ?items"
    by (simp add: iterdir_def env_of_sel root)
  have plain: "\<forall>item \<in> set ?items. is_file ?E item \<and> \<not> is_symlink ?E item
      \<and> st_size ?E item = 0 \<and> prefix [''repo''] item"
    by (auto simp: is_file_def env_of_sel fs_flat_item)
  have loop: "snd (snd (process_items ?E example_query ?items (fresh_result [''repo''])
        {[''repo'']} fresh_stats 0 [] [''repo''] []))
      = ({[''repo'']}, fresh_stats\<lparr>total_files := min (total_files fresh_stats + length ?items)
           (Suc MAX_FILES)\<rparr>)"
    by (rule plain_files_loop[OF plain])
      (simp_all add: example_query_def fresh_stats_def)
  have len: "length ?items = 10001" by (simp add: flat_names_def)
  have "scan_directory ?E example_query [''repo''] {} 0 fresh_stats
      = scan_finish (process_items ?E example_query ?items (fresh_result [''repo''])
          {[''repo'']} fresh_stats 0 [] [''repo''] [])"
    by (subst scan_unfold)
      (simp_all add: it env_of_sel root fresh_stats_def MAX_FILES_def MAX_TOTAL_SIZE_BYTES_def
        example_query_def)
  moreover obtain ex r t where pr: "process_items ?E example_query ?items
      (fresh_result [''repo'']) {[''repo'']} fresh_stats 0 [] [''repo''] []
      = (ex, r, {[''repo'']}, t)"
    and t: "t = fresh_stats\<lparr>total_files := min (total_files fresh_stats + length ?items)
           (Suc MAX_FILES)\<rparr>"
    using loop by (metis prod.collapse)
  ultimately show ?thesis
    using len by (auto simp: scan_finish_def fresh_stats_def MAX_FILES_def)
qed

lemma scan_breach:
  "scan_directory (env_of fs_scenario) example_query [''repo''] {} 0
      \<lparr>total_files = 9998, total_size = 0\<rparr>
     = (None, Some breach_tree, {[''repo'', ''lib''], [''repo'']},
        \<lparr>total_files = 10001, total_size = 3\<rparr>)"
  by (simp add: eval_simps fs_scenario_def breach_tree_def insert_commute)

subsection \<open>Trees without files\<close>

lemma no_files_preorder:
  "count_files n = 0 \<Longrightarrow> preorder_files n = []"
  by (induction n) auto

lemma tree_without_files:
  "count_files n = 0 \<Longrightarrow> create_tree_structure q n pre is_last = directory_lines q n pre is_last"
  "sum_list (map count_files cs) = 0 \<Longrightarrow> tree_children q cs pre = directory_lines_below q cs pre"
  by (induction q n pre is_last and q cs pre rule: create_tree_structure_tree_children.induct)
    (simp_all add: Let_def)

lemma scan_filtered_nested:
  "scan_directory (env_of fs_filtered) py_query [''repo''] {} 0 fresh_stats
     = (None, Some (DirNode ''repo'' 0 [] 0 0 [''repo''] True),
        {[''repo'', ''docs''], [''repo'']}, fresh_stats)"
  by (simp add: eval_simps py_query_def fs_filtered_def insert_commute)

lemma scan_empty_sub:
  "scan_directory (env_of fs_empty_sub) example_query [''repo''] {} 0 fresh_stats
     = (None,
        Some (DirNode ''repo'' 0 [DirNode ''sub'' 0 [] 0 0 [''repo'', ''sub''] False] 0 1
                [''repo''] False),
        {[''repo'', ''sub''], [''repo'']}, fresh_stats)"
  by (simp add: eval_simps fs_empty_sub_def insert_commute)

section \<open>Ceilings\<close>

text \<open>
  Claim C1. A tree returned by \<^verbatim>\<open>_scan_directory\<close> holds at most \<open>MAX_FILES\<close> file nodes
  (less what the running count had used before), and it is well formed: the aggregates of
  every directory are the sums over its children, so \<^verbatim>\<open>file_count\<close> and \<^verbatim>\<open>size\<close> are the
  number and the bytes of the file nodes below.

  What was built before the breach is returned. The file nodes of the returned tree are
  exactly as many as the steps the running count made up to the ceiling during the scan:
  every file that was admitted is in the tree, and nothing else is. Whatever the loop over
  the first items of the directory has built, before or up to the breach, is among the
  children of the returned node, also when a later item raises \<^verbatim>\<open>MaxFilesReachedError\<close>.

  The scan of a root with fresh statistics always returns its tree. Once the running count
  has reached \<open>MAX_FILES\<close>, a scan returns no node and the loop over the items of a
  directory adds no child to the result.
\<close>

theorem file_count_ceiling:
  "(scan_directory E q p seen_paths depth st = (ex, Some n, seen', st')
      \<longrightarrow> count_files n + min (total_files st) MAX_FILES \<le> MAX_FILES \<and> wf_node n
          \<and> file_count n = count_files n \<and> nsize n = total_bytes n
          \<and> count_files n + min (total_files st) MAX_FILES = min (total_files st') MAX_FILES)
   \<and> (scan_directory E q p seen_paths depth st = (ex, Some n, seen', st')
       \<and> iterdir E p = Some (first_items @ later_items)
       \<and> process_items E q first_items (fresh_result p) (insert (resolve E p) seen_paths) st
            depth (ignore_patterns q) (local_path q) (include_patterns q)
           = (ex1, r1, seen1, st1)
      \<longrightarrow> mset (r_children r1) \<subseteq># mset (children n))
   \<and> (\<exists>n seen' st'. scan_directory E q p {} 0 fresh_stats = (None, Some n, seen', st'))
   \<and> (MAX_FILES \<le> total_files sat \<longrightarrow>
        scan_directory E q p seen_paths depth sat = (None, None, seen_paths, sat)
        \<and> (process_items E q items r seen_paths sat depth ign base inc = (ex2, r2, seen2, st2)
             \<longrightarrow> same_entries r r2 \<and> seen2 = seen_paths \<and> MAX_FILES \<le> total_files st2))"
proof (intro conjI impI)
  assume sc: "scan_directory E q p seen_paths depth st = (ex, Some n, seen', st')"
  from scan_count[OF sc]
  show "count_files n + min (total_files st) MAX_FILES \<le> MAX_FILES" by simp
  from scan_wf[OF sc] show wf: "wf_node n" by simp
  from scan_wf[OF sc] wf_node_aggregates[OF wf]
  show "file_count n = count_files n"
    by (cases n) (auto simp: child_files_def is_dir_node_def)
  from wf_node_aggregates[OF wf] show "nsize n = total_bytes n" by simp
  from scan_exact_count[OF sc]
  show "count_files n + min (total_files st) MAX_FILES = min (total_files st') MAX_FILES"
    by simp
next
  assume "scan_directory E q p seen_paths depth st = (ex, Some n, seen', st')
       \<and> iterdir E p = Some (first_items @ later_items)
       \<and> process_items E q first_items (fresh_result p) (insert (resolve E p) seen_paths) st
            depth (ignore_patterns q) (local_path q) (include_patterns q)
           = (ex1, r1, seen1, st1)"
  then show "mset (r_children r1) \<subseteq># mset (children n)"
    by (auto intro: scan_keeps_partial)
next
  show "\<exists>n seen' st'. scan_directory E q p {} 0 fresh_stats = (None, Some n, seen', st')"
    by (rule scan_returns_node)
      (simp_all add: fresh_stats_def MAX_FILES_def MAX_TOTAL_SIZE_BYTES_def)
next
  assume "MAX_FILES \<le> total_files sat"
  then show "scan_directory E q p seen_paths depth sat = (None, None, seen_paths, sat)"
    by (simp add: scan_guard_none)
next
  assume "MAX_FILES \<le> total_files sat"
    and "process_items E q items r seen_paths sat depth ign base inc = (ex2, r2, seen2, st2)"
  then have "same_entries r r2 \<and> seen2 = seen_paths \<and> MAX_FILES \<le> total_files st2"
    by (rule process_items_saturated)
  then show "same_entries r r2" "seen2 = seen_paths" "MAX_FILES \<le> total_files st2"
    by simp_all
qed

text \<open>
  The ceiling is reached during the scan in both examples. The scenario directory scanned
  from a running count of 9998 returns \<^verbatim>\<open>lib/b.py\<close> and \<^verbatim>\<open>.secret\<close>, which were admitted
  before \<^verbatim>\<open>a.txt\<close> breached the ceiling; the flat directory of 10001 files returns a tree of
  exactly \<open>MAX_FILES\<close> file nodes.
\<close>

theorem file_count_ceiling_witness:
  "scan_directory (env_of fs_scenario) example_query [''repo''] {} 0
      \<lparr>total_files = 9998, total_size = 0\<rparr>
     = (None, Some breach_tree, {[''repo'', ''lib''], [''repo'']},
        \<lparr>total_files = 10001, total_size = 3\<rparr>)
   \<and> count_files breach_tree = 2 \<and> wf_node breach_tree
   \<and> file_count breach_tree = count_files breach_tree
   \<and> process_items (env_of fs_scenario) example_query
        [[''repo'', ''lib''], [''repo'', ''.secret'']] (fresh_result [''repo''])
        {[''repo'']} \<lparr>total_files = 9998, total_size = 0\<rparr> 0 [] [''repo''] []
       = (None,
          (fresh_result [''repo''])
            \<lparr>r_children :=
               [DirNode ''lib'' 1 [FileNode ''b.py'' 1 ''p'' [''repo'', ''lib'', ''b.py'']] 1 0
                  [''repo'', ''lib''] False,
                FileNode ''.secret'' 1 ''s'' [''repo'', ''.secret'']],
             r_size := 2, r_file_count := 2, r_dir_count := 1\<rparr>,
          {[''repo'', ''lib''], [''repo'']}, \<lparr>total_files = 10000, total_size = 2\<rparr>)
   \<and> mset [DirNode ''lib'' 1 [FileNode ''b.py'' 1 ''p'' [''repo'', ''lib'', ''b.py'']] 1 0
              [''repo'', ''lib''] False,
            FileNode ''.secret'' 1 ''s'' [''repo'', ''.secret'']]
        \<subseteq># mset (children breach_tree)
   \<and> (\<exists>n seen' st'.
         scan_directory (env_of fs_flat) example_query [''repo''] {} 0 fresh_stats
           = (None, Some n, seen', st')
         \<and> total_files st' = 10001 \<and> count_files n = MAX_FILES)
   \<and> scan_directory (env_of fs_scenario) example_query [''repo''] {} 0
        \<lparr>total_files = MAX_FILES, total_size = 0\<rparr>
       = (None, None, {}, \<lparr>total_files = MAX_FILES, total_size = 0\<rparr>)
   \<and> process_items (env_of fs_scenario) example_query [[''repo'', ''a.txt'']]
        (fresh_result [''repo'']) {} \<lparr>total_files = MAX_FILES, total_size = 0\<rparr> 0 []
        [''repo''] []
       = (Some MaxFilesReachedError, fresh_result [''repo''], {},
          \<lparr>total_files = Suc MAX_FILES, total_size = 1\<rparr>)
   \<and> same_entries (fresh_result [''repo'']) (fresh_result [''repo''])"
proof -
  let ?E = "env_of fs_scenario"
  let ?st = "\<lparr>total_files = 9998, total_size = 0\<rparr>"
  let ?sat = "\<lparr>total_files = MAX_FILES, total_size = 0\<rparr>"
  let ?lib = "DirNode ''lib'' 1 [FileNode ''b.py'' 1 ''p'' [''repo'', ''lib'', ''b.py'']] 1 0
      [''repo'', ''lib''] False"
  let ?secret = "FileNode ''.secret'' 1 ''s'' [''repo'', ''.secret'']"
  let ?r1 = "(fresh_result [''repo''])
      \<lparr>r_children := [?lib, ?secret], r_size := 2, r_file_count := 2, r_dir_count := 1\<rparr>"
  have listing: "iterdir ?E [''repo'']
      = Some ([[''repo'', ''lib''], [''repo'', ''.secret'']]
              @ [[''repo'', ''a.txt''], [''repo'', ''README.md'']])"
    by (simp add: iterdir_def env_of_sel fs_scenario_def)
  have first: "process_items ?E example_query [[''repo'', ''lib''], [''repo'', ''.secret'']]
      (fresh_result [''repo'']) (insert (resolve ?E [''repo'']) {}) ?st 0
      (ignore_patterns example_query) (local_path example_query)
      (include_patterns example_query)
      = (None, ?r1, {[''repo'', ''lib''], [''repo'']}, \<lparr>total_files = 10000, total_size = 2\<rparr>)"
    by (simp add: eval_simps fs_scenario_def fresh_result_def insert_commute)
  have ev: "process_items ?E example_query [[''repo'', ''a.txt'']] (fresh_result [''repo''])
      {} ?sat 0 [] [''repo''] []
      = (Some MaxFilesReachedError, fresh_result [''repo''], {},
         \<lparr>total_files = Suc MAX_FILES, total_size = 1\<rparr>)"
    by (simp add: eval_simps fs_scenario_def fresh_result_def)
  have sat: "MAX_FILES \<le> total_files ?sat" by simp
  note breach = file_count_ceiling[where E = ?E and q = example_query and p = "[''repo'']"
      and seen_paths = "{}" and depth = 0 and st = ?st and ex = None and n = breach_tree
      and seen' = "{[''repo'', ''lib''], [''repo'']}"
      and st' = "\<lparr>total_files = 10001, total_size = 3\<rparr>"
      and first_items = "[[''repo'', ''lib''], [''repo'', ''.secret'']]"
      and later_items = "[[''repo'', ''a.txt''], [''repo'', ''README.md'']]"
      and ?ex1.0 = None and ?r1.0 = ?r1 and ?seen1.0 = "{[''repo'', ''lib''], [''repo'']}"
      and ?st1.0 = "\<lparr>total_files = 10000, total_size = 2\<rparr>"
      and sat = ?sat and items = "[[''repo'', ''a.txt'']]" and r = "fresh_result [''repo'']"
      and ign = "[]" and base = "[''repo'']" and inc = "[]"
      and ?ex2.0 = "Some MaxFilesReachedError" and ?r2.0 = "fresh_result [''repo'']"
      and ?seen2.0 = "{}" and ?st2.0 = "\<lparr>total_files = Suc MAX_FILES, total_size = 1\<rparr>"]
  from breach scan_breach have cnt: "count_files breach_tree = 2" "wf_node breach_tree"
    "file_count breach_tree = count_files breach_tree"
    by (simp_all add: MAX_FILES_def)
  from breach scan_breach listing first
  have part: "mset (r_children ?r1) \<subseteq># mset (children breach_tree)"
    by blast
  from breach sat
  have guard: "scan_directory ?E example_query [''repo''] {} 0 ?sat = (None, None, {}, ?sat)"
    by blast
  obtain n seen' st' where flat:
    "scan_directory (env_of fs_flat) example_query [''repo''] {} 0 fresh_stats
      = (None, Some n, seen', st')"
    using file_count_ceiling[where E = "env_of fs_flat" and q = example_query
        and p = "[''repo'']", THEN conjunct2, THEN conjunct2, THEN conjunct1] by blast
  with scan_flat_stats have tf: "total_files st' = 10001" by simp
  from file_count_ceiling[where E = "env_of fs_flat" and q = example_query
      and p = "[''repo'']" and seen_paths = "{}" and depth = 0 and st = fresh_stats
      and ex = None and n = n and seen' = seen' and st' = st'] flat tf
  have "count_files n = MAX_FILES"
    by (simp add: fresh_stats_def MAX_FILES_def)
  with flat tf have fl: "\<exists>n seen' st'.
         scan_directory (env_of fs_flat) example_query [''repo''] {} 0 fresh_stats
           = (None, Some n, seen', st')
         \<and> total_files st' = 10001 \<and> count_files n = MAX_FILES"
    by blast
  have first': "process_items ?E example_query [[''repo'', ''lib''], [''repo'', ''.secret'']]
      (fresh_result [''repo'']) {[''repo'']} ?st 0 [] [''repo''] []
      = (None, ?r1, {[''repo'', ''lib''], [''repo'']}, \<lparr>total_files = 10000, total_size = 2\<rparr>)"
    using first by (simp add: env_of_sel fs_scenario_def example_query_def)
  from part have part': "mset [?lib, ?secret] \<subseteq># mset (children breach_tree)"
    by (simp add: fresh_result_def)
  from scan_breach cnt first' part' fl guard ev show ?thesis
    by (simp add: same_entries_def)
qed

text \<open>
  Claim C2, as the code has it. The size ceiling is checked before the counters are
  committed, so \<^verbatim>\<open>total_size\<close> never passes \<open>MAX_TOTAL_SIZE_BYTES\<close>. The file-count ceiling
  is checked after \<^verbatim>\<open>total_files\<close> has been incremented: a file node is admitted only when
  the incremented count is within \<open>MAX_FILES\<close>, but the counter itself can pass the
  ceiling, by at most one for each directory level that is open, hence never beyond
  \<open>MAX_FILES + MAX_DIRECTORY_DEPTH + 1\<close>. A breach never aborts the scan: no exception
  leaves \<^verbatim>\<open>_scan_directory\<close>, and a returned tree has at most \<open>MAX_FILES\<close> file nodes.
\<close>

theorem ceilings_checked:
  "(admit_file E src item r st = (ex, r', st')
      \<longrightarrow> (total_size st \<le> MAX_TOTAL_SIZE_BYTES \<longrightarrow> total_size st' \<le> MAX_TOTAL_SIZE_BYTES)
          \<and> (r' \<noteq> r \<longrightarrow> total_files st' \<le> MAX_FILES)
          \<and> total_files st' \<le> Suc (total_files st))
   \<and> (scan_directory E q p seen_paths depth st = (ex2, nd, seen2, st2)
      \<longrightarrow> ex2 = None
          \<and> (total_size st \<le> MAX_TOTAL_SIZE_BYTES \<longrightarrow> total_size st2 \<le> MAX_TOTAL_SIZE_BYTES)
          \<and> (total_files st \<le> MAX_FILES
                \<longrightarrow> total_files st2 \<le> MAX_FILES + MAX_DIRECTORY_DEPTH + 1)
          \<and> (case nd of None \<Rightarrow> st2 = st | Some n \<Rightarrow> count_files n \<le> MAX_FILES))"
proof (intro conjI impI)
  assume "admit_file E src item r st = (ex, r', st')"
  then have c: "(ex = Some MaxFileSizeReachedError \<and> r' = r \<and> st' = st)
      \<or> (ex = Some MaxFilesReachedError \<and> r' = r
          \<and> st' = st\<lparr>total_files := total_files st + 1,
                       total_size := total_size st + st_size E src\<rparr>
          \<and> total_size st + st_size E src \<le> MAX_TOTAL_SIZE_BYTES)
      \<or> (ex = None
          \<and> st' = st\<lparr>total_files := total_files st + 1,
                       total_size := total_size st + st_size E src\<rparr>
          \<and> total_size st + st_size E src \<le> MAX_TOTAL_SIZE_BYTES
          \<and> total_files st + 1 \<le> MAX_FILES)"
    by (auto dest!: admit_file_cases)
  from c show "total_files st' \<le> Suc (total_files st)" by auto
  {
    assume "total_size st \<le> MAX_TOTAL_SIZE_BYTES"
    with c show "total_size st' \<le> MAX_TOTAL_SIZE_BYTES" by auto
  }
  {
    assume "r' \<noteq> r"
    with c show "total_files st' \<le> MAX_FILES" by auto
  }
next
  assume sc: "scan_directory E q p seen_paths depth st = (ex2, nd, seen2, st2)"
  show "ex2 = None" using sc by (rule no_raise(1))
  show "case nd of None \<Rightarrow> st2 = st | Some n \<Rightarrow> count_files n \<le> MAX_FILES"
  proof (cases nd)
    case None
    with sc show ?thesis by (auto dest: scan_none_unchanged)
  next
    case (Some n)
    with sc scan_count[of E q p seen_paths depth st ex2 n seen2 st2] show ?thesis by simp
  qed
  {
    assume "total_size st \<le> MAX_TOTAL_SIZE_BYTES"
    with sc show "total_size st2 \<le> MAX_TOTAL_SIZE_BYTES"
      by (cases nd) (auto dest: scan_none_unchanged scan_mono)
  }
  {
    assume "total_files st \<le> MAX_FILES"
    with sc show "total_files st2 \<le> MAX_FILES + MAX_DIRECTORY_DEPTH + 1"
    proof (cases nd)
      case None
      with sc \<open>total_files st \<le> MAX_FILES\<close> show ?thesis
        by (auto dest: scan_none_unchanged)
    next
      case (Some n)
      with sc scan_files_bound[of E q p seen_paths depth st ex2 n seen2 st2]
      show ?thesis by simp
    qed
  }
qed

theorem ceilings_checked_witness:
  "admit_file (env_of fs_scenario) [''repo'', ''a.txt''] [''repo'', ''a.txt'']
      (fresh_result [''repo'']) fresh_stats
     = (None,
        (fresh_result [''repo''])
          \<lparr>r_children := [FileNode ''a.txt'' 1 ''a'' [''repo'', ''a.txt'']], r_size := 1,
           r_file_count := 1\<rparr>,
        \<lparr>total_files = 1, total_size = 1\<rparr>)
   \<and> total_files \<lparr>total_files = 1, total_size = 1\<rparr> \<le> MAX_FILES
   \<and> total_size \<lparr>total_files = 4, total_size = 4\<rparr> \<le> MAX_TOTAL_SIZE_BYTES
   \<and> total_files \<lparr>total_files = 4, total_size = 4\<rparr> \<le> MAX_FILES + MAX_DIRECTORY_DEPTH + 1
   \<and> count_files scenario_tree \<le> MAX_FILES"
proof -
  let ?E = "env_of fs_scenario"
  let ?r1 = "(fresh_result [''repo''])
          \<lparr>r_children := [FileNode ''a.txt'' 1 ''a'' [''repo'', ''a.txt'']], r_size := 1,
           r_file_count := 1\<rparr>"
  let ?st1 = "\<lparr>total_files = 1, total_size = 1\<rparr>"
  have ev: "admit_file ?E [''repo'', ''a.txt''] [''repo'', ''a.txt'']
      (fresh_result [''repo'']) fresh_stats = (None, ?r1, ?st1)"
    by (simp add: eval_simps fs_scenario_def fresh_result_def)
  have ne: "?r1 \<noteq> fresh_result [''repo'']"
    by (simp add: fresh_result_def dir_result.defs)
  have sz: "total_size fresh_stats \<le> MAX_TOTAL_SIZE_BYTES" "total_files fresh_stats \<le> MAX_FILES"
    by (simp_all add: fresh_stats_def)
  note inst = ceilings_checked[of ?E "[''repo'', ''a.txt'']" "[''repo'', ''a.txt'']"
      "fresh_result [''repo'']" fresh_stats None ?r1 ?st1 example_query "[''repo'']" "{}" 0
      None "Some scenario_tree" "{[''repo'', ''lib''], [''repo'']}"
      "\<lparr>total_files = 4, total_size = 4\<rparr>"]
  from inst ev ne sz scan_scenario show ?thesis by simp
qed

text \<open>
  Claim C2 as stated fails: the scan of a directory of 10001 files leaves
  \<^verbatim>\<open>stats["total_files"]\<close> at 10001, one more than \<open>MAX_FILES\<close>.
\<close>

theorem total_files_overshoot_counterexample:
  "total_files (snd (snd (snd
      (scan_directory (env_of fs_flat) example_query [''repo''] {} 0 fresh_stats)))) = 10001
   \<and> MAX_FILES = 10000"
proof -
  let ?E = "env_of fs_flat"
  let ?items = "map (\<lambda>n. [''repo''] @ [n]) flat_names"
  have root: "map_of fs_flat [''repo''] = Some (Dir flat_names)"
    by (simp add: fs_flat_def)
  have it: "iterdir ?E [''repo''] = Some ?items"
    by (simp add: iterdir_def env_of_sel root)
  have plain: "\<forall>item \<in> set ?items. is_file ?E item \<and> \<not> is_symlink ?E item
      \<and> st_size ?E item = 0 \<and> prefix [''repo''] item"
    by (auto simp: is_file_def env_of_sel fs_flat_item)
  have loop: "snd (snd (process_items ?E example_query ?items (fresh_result [''repo''])
        {[''repo'']} fresh_stats 0 [] [''repo''] []))
      = ({[''repo'']}, fresh_stats\<lparr>total_files := min (total_files fresh_stats + length ?items)
           (Suc MAX_FILES)\<rparr>)"
    by (rule plain_files_loop[OF plain])
      (simp_all add: example_query_def fresh_stats_def)
  have len: "length ?items = 10001" by (simp add: flat_names_def)
  have "scan_directory ?E example_query [''repo''] {} 0 fresh_stats
      = scan_finish (process_items ?E example_query ?items (fresh_result [''repo''])
          {[''repo'']} fresh_stats 0 [] [''repo''] [])"
    by (subst scan_unfold)
      (simp_all add: it env_of_sel root fresh_stats_def MAX_FILES_def MAX_TOTAL_SIZE_BYTES_def
        example_query_def)
  moreover obtain ex r t where pr: "process_items ?E example_query ?items
      (fresh_result [''repo'']) {[''repo'']} fresh_stats 0 [] [''repo''] []
      = (ex, r, {[''repo'']}, t)"
    and t: "t = fresh_stats\<lparr>total_files := min (total_files fresh_stats + length ?items)
           (Suc MAX_FILES)\<rparr>"
    using loop by (metis prod.collapse)
  ultimately show ?thesis
    using len by (auto simp: scan_finish_def fresh_stats_def MAX_FILES_def)
qed

section \<open>Termination and cycle safety\<close>

text \<open>
  Claim C3. The recursive walk terminates on every file system: every argument lies in the
  domain of the four mutually recursive functions, since no call chain is longer than the
  depth ceiling allows. A scan below the depth ceiling, or of a directory whose canonical
  path is already in the visited set, returns no node and changes nothing; a returned tree
  is at most \<open>MAX_DIRECTORY_DEPTH + 1\<close> directory levels high, counted from the depth of
  the scan, and its directory was not visited before and is visited afterwards. A symlink
  whose canonical target is already visited, as that of a link to an ancestor is, adds
  nothing to the result of its directory and leaves the visited set and the statistics as
  they are.
\<close>

theorem walk_terminates:
  "scan_directory_process_items_process_item_process_symlink_dom x
   \<and> (MAX_DIRECTORY_DEPTH < depth \<or> resolve E p \<in> seen_paths
        \<longrightarrow> scan_directory E q p seen_paths depth st = (None, None, seen_paths, st))
   \<and> (scan_directory E q p seen_paths depth st = (ex, Some n, seen', st')
        \<longrightarrow> dir_height n + depth \<le> MAX_DIRECTORY_DEPTH + 1
            \<and> resolve E p \<notin> seen_paths \<and> insert (resolve E p) seen_paths \<subseteq> seen')
   \<and> (is_symlink E item \<and> resolve E item \<in> seen_paths
        \<longrightarrow> (\<exists>r'. process_item E item q r seen_paths st depth ign base inc
                    = (None, r', seen_paths, st)
                  \<and> same_entries r r'))"
proof (intro conjI impI)
  show "scan_directory_process_items_process_item_process_symlink_dom x"
    using walk_total by blast
next
  assume "MAX_DIRECTORY_DEPTH < depth \<or> resolve E p \<in> seen_paths"
  then show "scan_directory E q p seen_paths depth st = (None, None, seen_paths, st)"
    by (intro scan_guard_none) auto
next
  assume sc: "scan_directory E q p seen_paths depth st = (ex, Some n, seen', st')"
  from scan_height[OF sc] show "dir_height n + depth \<le> MAX_DIRECTORY_DEPTH + 1" by simp
  from scan_marks_visited[OF sc]
  show "resolve E p \<notin> seen_paths" "insert (resolve E p) seen_paths \<subseteq> seen'" by simp_all
next
  assume "is_symlink E item \<and> resolve E item \<in> seen_paths"
  then show "\<exists>r'. process_item E item q r seen_paths st depth ign base inc
                    = (None, r', seen_paths, st) \<and> same_entries r r'"
    by (intro process_item_visited_symlink) simp_all
qed

theorem walk_terminates_witness:
  "scan_directory (env_of fs_loop) example_query [''repo''] {} 0 fresh_stats
     = (None, Some loop_tree, {[''repo'', ''a''], [''repo'']},
        \<lparr>total_files = 1, total_size = 1\<rparr>)
   \<and> dir_height loop_tree + 0 \<le> MAX_DIRECTORY_DEPTH + 1
   \<and> is_symlink (env_of fs_loop) [''repo'', ''a'', ''up'']
   \<and> resolve (env_of fs_loop) [''repo'', ''a'', ''up''] = [''repo'']
   \<and> process_item (env_of fs_loop) [''repo'', ''a'', ''up''] example_query
        (fresh_result [''repo'', ''a'']) {[''repo'', ''a''], [''repo'']} fresh_stats 1 []
        [''repo''] []
       = (None, fresh_result [''repo'', ''a''], {[''repo'', ''a''], [''repo'']}, fresh_stats)
   \<and> scan_directory (env_of fs_loop) example_query [''repo''] {[''repo'']} 1 fresh_stats
       = (None, None, {[''repo'']}, fresh_stats)"
proof -
  let ?E = "env_of fs_loop"
  have ev: "scan_directory ?E example_query [''repo''] {} 0 fresh_stats
     = (None, Some loop_tree, {[''repo'', ''a''], [''repo'']},
        \<lparr>total_files = 1, total_size = 1\<rparr>)"
    by (simp add: eval_simps fs_loop_def loop_tree_def insert_commute)
  have ln: "is_symlink ?E [''repo'', ''a'', ''up'']"
    "resolve ?E [''repo'', ''a'', ''up''] = [''repo'']"
    by (simp_all add: env_of_sel fs_loop_def)
  have it: "process_item ?E [''repo'', ''a'', ''up''] example_query
        (fresh_result [''repo'', ''a'']) {[''repo'', ''a''], [''repo'']} fresh_stats 1 []
        [''repo''] []
       = (None, fresh_result [''repo'', ''a''], {[''repo'', ''a''], [''repo'']}, fresh_stats)"
    by (simp add: eval_simps fs_loop_def fresh_result_def)
  have root: "resolve ?E [''repo''] \<in> {[''repo'']}"
    by (simp add: env_of_sel fs_loop_def)
  note a = walk_terminates[of "Inl (Inl (?E, example_query, [''repo''], {}, 0, fresh_stats))"
      0 ?E "[''repo'']" "{}" example_query fresh_stats None loop_tree
      "{[''repo'', ''a''], [''repo'']}" "\<lparr>total_files = 1, total_size = 1\<rparr>"
      "[''repo'', ''a'', ''up'']"]
  note b = walk_terminates[of "Inl (Inl (?E, example_query, [''repo''], {}, 0, fresh_stats))"
      1 ?E "[''repo'']" "{[''repo'']}" example_query fresh_stats]
  from a ev have "dir_height loop_tree + 0 \<le> MAX_DIRECTORY_DEPTH + 1" by simp
  moreover from b root
  have "scan_directory ?E example_query [''repo''] {[''repo'']} 1 fresh_stats
       = (None, None, {[''repo'']}, fresh_stats)" by blast
  ultimately show ?thesis using ev ln it by simp
qed

section \<open>Symbolic links\<close>

text \<open>
  Claim C4, as the code has it. The base of the safety test is \<^verbatim>\<open>query["local_path"]\<close>, which
  \<^verbatim>\<open>_scan_directory\<close> passes on whatever the subpath, and the test is made on the entries of
  a scanned directory: a symlink met as an item of a directory, whose canonical target lies
  outside the canonical subtree of \<^verbatim>\<open>local_path\<close>, is never followed. With any pattern
  lists, the item adds no node to its directory and leaves the visited set and the
  statistics unchanged; a directory that holds only such a link is returned without
  children.

  The directory handed to \<^verbatim>\<open>_scan_directory\<close> is itself never tested. When it is a symlink
  whose canonical target lies outside \<^verbatim>\<open>local_path\<close>, as the scan root \<^verbatim>\<open>local_path/subpath\<close>
  can be, it is listed all the same: a regular file that is its only entry is read into
  the tree.
\<close>

theorem unsafe_symlink_not_followed:
  "(is_symlink E item \<and> \<not> prefix (resolve E base_path) (resolve E item)
      \<longrightarrow> (\<exists>r'. process_item E item q r seen_paths st depth ign base_path inc
                  = (None, r', seen_paths, st)
                \<and> same_entries r r'))
   \<and> (depth \<le> MAX_DIRECTORY_DEPTH \<and> total_files st < MAX_FILES
       \<and> total_size st < MAX_TOTAL_SIZE_BYTES \<and> resolve E p \<notin> seen_paths
       \<and> listdir E p = Some [nm] \<and> is_symlink E (p @ [nm])
       \<and> \<not> prefix (resolve E (local_path q)) (resolve E (p @ [nm]))
      \<longrightarrow> (\<exists>n. scan_directory E q p seen_paths depth st
                  = (None, Some n, insert (resolve E p) seen_paths, st)
                \<and> children n = [] \<and> file_count n = 0))
   \<and> (is_symlink E root \<and> \<not> prefix (resolve E (local_path q)) (resolve E root)
       \<and> depth \<le> MAX_DIRECTORY_DEPTH \<and> total_files st < MAX_FILES
       \<and> total_size st < MAX_TOTAL_SIZE_BYTES
       \<and> total_size st + st_size E (root @ [nm]) \<le> MAX_TOTAL_SIZE_BYTES
       \<and> resolve E root \<notin> seen_paths \<and> listdir E root = Some [nm]
       \<and> is_file E (root @ [nm]) \<and> \<not> is_symlink E (root @ [nm])
       \<and> \<not> should_exclude E (root @ [nm]) (local_path q) (ignore_patterns q)
       \<and> (include_patterns q = []
            \<or> should_include E (root @ [nm]) (local_path q) (include_patterns q))
      \<longrightarrow> scan_directory E q root seen_paths depth st
            = (None,
               Some (DirNode (path_name root) (st_size E (root @ [nm]))
                       [FileNode nm (st_size E (root @ [nm]))
                          (if is_text_file E (root @ [nm])
                           then read_file_content E (root @ [nm]) else ''[Non-text file]'')
                          (root @ [nm])]
                       1 0 root False),
               insert (resolve E root) seen_paths,
               st\<lparr>total_files := total_files st + 1,
                  total_size := total_size st + st_size E (root @ [nm])\<rparr>))"
proof (intro conjI impI)
  assume "is_symlink E item \<and> \<not> prefix (resolve E base_path) (resolve E item)"
  then show "\<exists>r'. process_item E item q r seen_paths st depth ign base_path inc
                  = (None, r', seen_paths, st) \<and> same_entries r r'"
    by (intro process_item_unsafe_symlink) (simp_all add: is_safe_symlink_prefix)
next
  assume a: "depth \<le> MAX_DIRECTORY_DEPTH \<and> total_files st < MAX_FILES
       \<and> total_size st < MAX_TOTAL_SIZE_BYTES \<and> resolve E p \<notin> seen_paths
       \<and> listdir E p = Some [nm] \<and> is_symlink E (p @ [nm])
       \<and> \<not> prefix (resolve E (local_path q)) (resolve E (p @ [nm]))"
  let ?s1 = "insert (resolve E p) seen_paths"
  from a obtain r' where
    pi: "process_item E (p @ [nm]) q (fresh_result p) ?s1 st depth
          (ignore_patterns q) (local_path q) (include_patterns q) = (None, r', ?s1, st)"
    and se: "same_entries (fresh_result p) r'"
    using process_item_unsafe_symlink[of E "p @ [nm]" "local_path q" q "fresh_result p" ?s1 st
        depth "ignore_patterns q" "include_patterns q"]
    by (auto simp: is_safe_symlink_prefix)
  from a have it: "iterdir E p = Some [p @ [nm]]" by (simp add: iterdir_def)
  from a have "scan_directory E q p seen_paths depth st
      = scan_finish (None, r', ?s1, st)"
    by (subst scan_unfold) (simp_all add: it process_items.simps pi)
  with se show "\<exists>n. scan_directory E q p seen_paths depth st = (None, Some n, ?s1, st)
                \<and> children n = [] \<and> file_count n = 0"
    by (simp add: scan_finish_def to_node_def same_entries_def fresh_result_def
        sort_children_def)
next
  assume a: "is_symlink E root \<and> \<not> prefix (resolve E (local_path q)) (resolve E root)
       \<and> depth \<le> MAX_DIRECTORY_DEPTH \<and> total_files st < MAX_FILES
       \<and> total_size st < MAX_TOTAL_SIZE_BYTES
       \<and> total_size st + st_size E (root @ [nm]) \<le> MAX_TOTAL_SIZE_BYTES
       \<and> resolve E root \<notin> seen_paths \<and> listdir E root = Some [nm]
       \<and> is_file E (root @ [nm]) \<and> \<not> is_symlink E (root @ [nm])
       \<and> \<not> should_exclude E (root @ [nm]) (local_path q) (ignore_patterns q)
       \<and> (include_patterns q = []
            \<or> should_include E (root @ [nm]) (local_path q) (include_patterns q))"
  let ?item = "root @ [nm]"
  let ?s1 = "insert (resolve E root) seen_paths"
  let ?file = "FileNode nm (st_size E ?item)
      (if is_text_file E ?item then read_file_content E ?item else ''[Non-text file]'') ?item"
  let ?st1 = "st\<lparr>total_files := total_files st + 1,
      total_size := total_size st + st_size E ?item\<rparr>"
  let ?r1 = "(fresh_result root)\<lparr>r_children := [?file], r_size := st_size E ?item,
      r_file_count := 1\<rparr>"
  from a have it: "iterdir E root = Some [?item]" by (simp add: iterdir_def)
  from a have ad: "admit_file E ?item ?item (fresh_result root) st = (None, ?r1, ?st1)"
    by (simp add: admit_file_def Let_def fresh_result_def path_name_def)
  from a have pi: "process_item E ?item q (fresh_result root) ?s1 st depth
      (ignore_patterns q) (local_path q) (include_patterns q) = (None, ?r1, ?s1, ?st1)"
    by (subst process_item.simps) (auto simp: process_file_def ad item_catch_def)
  have srt: "sort_children [?file] = [?file]"
    by (rule sort_children_single)
  from a have "scan_directory E q root seen_paths depth st = scan_finish (None, ?r1, ?s1, ?st1)"
    by (subst scan_unfold) (simp_all add: it process_items.simps pi)
  then show "scan_directory E q root seen_paths depth st
      = (None, Some (DirNode (path_name root) (st_size E ?item) [?file] 1 0 root False),
         ?s1, ?st1)"
    by (simp add: scan_finish_def to_node_def fresh_result_def srt)
qed

text \<open>
  The link \<^verbatim>\<open>/repo/out\<close> to \<^verbatim>\<open>/etc/passwd\<close> is an entry of the scanned directory and is not
  followed. The scan root \<^verbatim>\<open>/repo/evil\<close>, a link to \<^verbatim>\<open>/etc\<close>, is listed and
  \<^verbatim>\<open>/etc/passwd\<close> is read through it.
\<close>

theorem unsafe_symlink_not_followed_witness:
  "is_symlink (env_of fs_outside) [''repo'', ''out'']
   \<and> resolve (env_of fs_outside) [''repo'', ''out''] = [''etc'', ''passwd'']
   \<and> scan_directory (env_of fs_outside) example_query [''repo''] {} 0 fresh_stats
       = (None, Some (DirNode ''repo'' 0 [] 0 0 [''repo''] False), {[''repo'']}, fresh_stats)
   \<and> (\<exists>r'. process_item (env_of fs_outside) [''repo'', ''out''] example_query
               (fresh_result [''repo'']) {[''repo'']} fresh_stats 0 [''*.tmp''] [''repo'']
               [''*'']
             = (None, r', {[''repo'']}, fresh_stats)
           \<and> same_entries (fresh_result [''repo'']) r')
   \<and> scan_root evil_query = [''repo'', ''evil'']
   \<and> is_symlink env_root_link [''repo'', ''evil'']
   \<and> resolve env_root_link [''repo'', ''evil''] = [''etc'']
   \<and> \<not> prefix (resolve env_root_link (local_path evil_query))
          (resolve env_root_link [''repo'', ''evil''])
   \<and> scan_directory env_root_link evil_query (scan_root evil_query) {} 0 fresh_stats
       = (None,
          Some (DirNode ''evil'' 1
                  [FileNode ''passwd'' 1 ''r'' [''repo'', ''evil'', ''passwd'']] 1 0
                  [''repo'', ''evil''] False),
          {[''etc'']}, \<lparr>total_files = 1, total_size = 1\<rparr>)"
proof -
  let ?E = "env_of fs_outside"
  have ln: "is_symlink ?E [''repo'', ''out'']"
    "resolve ?E [''repo'', ''out''] = [''etc'', ''passwd'']"
    "resolve ?E [''repo''] = [''repo'']"
    by (simp_all add: env_of_sel fs_outside_def)
  have np: "\<not> prefix (resolve ?E [''repo'']) (resolve ?E [''repo'', ''out''])"
    by (simp add: ln)
  have ls: "listdir ?E [''repo''] = Some [''out'']"
    by (simp add: env_of_sel fs_outside_def)
  note a = unsafe_symlink_not_followed[where E = ?E and item = "[''repo'', ''out'']"
      and base_path = "[''repo'']" and q = example_query and r = "fresh_result [''repo'']"
      and seen_paths = "{[''repo'']}" and st = fresh_stats and depth = 0
      and ign = "[''*.tmp'']" and inc = "[''*'']"]
  from a ln np have one: "\<exists>r'. process_item ?E [''repo'', ''out''] example_query
               (fresh_result [''repo'']) {[''repo'']} fresh_stats 0 [''*.tmp''] [''repo'']
               [''*'']
             = (None, r', {[''repo'']}, fresh_stats)
           \<and> same_entries (fresh_result [''repo'']) r'"
    by blast
  note b = unsafe_symlink_not_followed[where E = ?E and q = example_query
      and p = "[''repo'']" and nm = "''out''" and seen_paths = "{}" and st = fresh_stats
      and depth = 0, THEN conjunct2, THEN conjunct1]
  from b ln np ls have "\<exists>n. scan_directory ?E example_query [''repo''] {} 0 fresh_stats
      = (None, Some n, insert (resolve ?E [''repo'']) {}, fresh_stats)
      \<and> children n = [] \<and> file_count n = 0"
    by (simp add: fresh_stats_def MAX_FILES_def MAX_TOTAL_SIZE_BYTES_def example_query_def)
  moreover have "scan_directory ?E example_query [''repo''] {} 0 fresh_stats
       = (None, Some (DirNode ''repo'' 0 [] 0 0 [''repo''] False), {[''repo'']}, fresh_stats)"
    by (simp add: eval_simps fs_outside_def)
  ultimately have two: "scan_directory ?E example_query [''repo''] {} 0 fresh_stats
       = (None, Some (DirNode ''repo'' 0 [] 0 0 [''repo''] False), {[''repo'']}, fresh_stats)"
    by simp
  let ?R = env_root_link
  let ?root = "[''repo'', ''evil'']"
  have sr: "scan_root evil_query = ?root"
    by (simp add: scan_root_def evil_query_def example_query_def)
  have rl: "is_symlink ?R ?root" "resolve ?R ?root = [''etc'']"
    "resolve ?R (local_path evil_query) = [''repo'']"
    "listdir ?R ?root = Some [''passwd'']"
    "is_file ?R (?root @ [''passwd''])" "\<not> is_symlink ?R (?root @ [''passwd''])"
    "st_size ?R (?root @ [''passwd'']) = 1"
    "is_text_file ?R (?root @ [''passwd''])"
    "read_file_content ?R (?root @ [''passwd'']) = ''r''"
    by (simp_all add: env_root_link_def fs_root_link_def evil_query_def eval_simps)
  have nx: "\<not> should_exclude ?R (?root @ [''passwd'']) (local_path evil_query)
      (ignore_patterns evil_query)" "include_patterns evil_query = []"
    by (simp_all add: evil_query_def eval_simps)
  note c = unsafe_symlink_not_followed[where E = ?R and q = evil_query and root = ?root
      and nm = "''passwd''" and seen_paths = "{}" and st = fresh_stats and depth = 0,
      THEN conjunct2, THEN conjunct2]
  from c rl nx
  have three: "scan_directory ?R evil_query ?root {} 0 fresh_stats
       = (None,
          Some (DirNode ''evil'' 1
                  [FileNode ''passwd'' 1 ''r'' [''repo'', ''evil'', ''passwd'']] 1 0
                  [''repo'', ''evil''] False),
          {[''etc'']}, \<lparr>total_files = 1, total_size = 1\<rparr>)"
    by (simp add: fresh_stats_def MAX_FILES_def MAX_TOTAL_SIZE_BYTES_def path_name_def)
  from ln one two sr rl three show ?thesis by simp
qed

text \<open>
  Claim C4 as stated fails when the scan is rooted at a subpath: the link
  \<^verbatim>\<open>/repo/sub/link\<close> points to \<^verbatim>\<open>/repo/other\<close>, outside the scan root \<^verbatim>\<open>/repo/sub\<close>, and it
  is followed; the file below its target is read into the tree.
\<close>

theorem symlink_outside_scan_root_counterexample:
  "scan_root sub_query = [''repo'', ''sub'']
   \<and> is_symlink (env_of fs_sub) [''repo'', ''sub'', ''link'']
   \<and> resolve (env_of fs_sub) [''repo'', ''sub'', ''link''] = [''repo'', ''other'']
   \<and> \<not> prefix (resolve (env_of fs_sub) (scan_root sub_query))
          (resolve (env_of fs_sub) [''repo'', ''sub'', ''link''])
   \<and> scan_directory (env_of fs_sub) sub_query (scan_root sub_query) {} 0 fresh_stats
       = (None, Some sub_tree, {[''repo'', ''other''], [''repo'', ''sub'']},
          \<lparr>total_files = 1, total_size = 1\<rparr>)"
proof -
  have sr: "scan_root sub_query = [''repo'', ''sub'']"
    by (simp add: scan_root_def sub_query_def example_query_def)
  show ?thesis
    unfolding sr
    by (simp add: eval_simps sub_query_def fs_sub_def sub_tree_def insert_commute)
qed


text \<open>
  Claim C5 fails on the code. \<^verbatim>\<open>_process_item\<close> calls \<^verbatim>\<open>_process_symlink\<close> and then goes on to
  \<^verbatim>\<open>if item.is_file()\<close>, which is true of a link to a file: the link is counted and added
  twice.
\<close>

theorem symlink_to_file_counted_twice:
  "scan_directory (env_of fs_link_file) example_query [''repo''] {} 0 fresh_stats
     = (None,
        Some (DirNode ''repo'' 6
               [FileNode ''a.txt'' 2 ''hi'' [''repo'', ''a.txt''],
                FileNode ''link'' 2 ''hi'' [''repo'', ''link''],
                FileNode ''link'' 2 ''hi'' [''repo'', ''link'']]
               3 0 [''repo''] False),
        {[''repo'']}, \<lparr>total_files = 3, total_size = 6\<rparr>)"
  by (simp add: eval_simps fs_link_file_def)

section \<open>Ordering of children\<close>

lemma scan_ordered:
  assumes "scan_directory E q p s d t = (ex, Some n, s', t')"
  shows "is_dir_node n \<and> all_dirs_ordered n"
proof -
  define T where "T = (\<lambda>(E::env) (q::query) (d::nat) (x::dir_result \<times> path set \<times> stats)
      (y::exn option \<times> dir_result \<times> path set \<times> stats).
      list_all all_dirs_ordered (r_children (fst x))
        \<longrightarrow> list_all all_dirs_ordered (r_children (fst (snd y))))"
  define N where "N = (\<lambda>(E::env) (q::query) (d::nat) (x::path set \<times> stats) (n::node)
      (y::path set \<times> stats). is_dir_node n \<and> all_dirs_ordered n)"
  have "case Some n of None \<Rightarrow> s' = s \<and> t' = t | Some n \<Rightarrow> N E q d (s, t) n (s', t')"
  proof (rule walk_rule(1)[where T = T and N = N, OF _ _ _ _ _ _ _ _ _ assms])
    show "\<And>E q d src item r s t ex r' t'.
        admit_file E src item r t = (ex, r', t') \<Longrightarrow> prefix (local_path q) item \<Longrightarrow>
        d \<le> MAX_DIRECTORY_DEPTH \<Longrightarrow> T E q d (r, s, t) (ex, r', s, t')"
      by (auto simp: T_def dest!: admit_file_cases)
    show "\<And>E q d r s t sd s' t' rn inc. N E q (Suc d) (s, t) sd (s', t') \<Longrightarrow>
        rn = (\<lambda>sd. sd) \<or> (\<exists>item. prefix (local_path q) item \<and> rn = rename_node item) \<Longrightarrow>
        inc = [] \<or> file_count sd > 0 \<Longrightarrow>
        d \<le> MAX_DIRECTORY_DEPTH \<Longrightarrow> T E q d (r, s, t) (None, attach_subdir r (rn sd), s', t')"
      by (auto simp: T_def N_def attach_subdir_def rename_node_def is_dir_node_def
          split: node.splits)
    show "\<And>E q d p s t ex r' s' t'.
        d \<le> MAX_DIRECTORY_DEPTH \<Longrightarrow> total_files t < MAX_FILES \<Longrightarrow>
        total_size t < MAX_TOTAL_SIZE_BYTES \<Longrightarrow> resolve E p \<notin> s \<Longrightarrow>
        T E q d (fresh_result p, insert (resolve E p) s, t) (ex, r', s', t') \<Longrightarrow>
        ex = None \<or> ex = Some MaxFilesReachedError \<Longrightarrow>
        N E q d (s, t) (to_node (r'\<lparr>r_children := sort_children (r_children r')\<rparr>)) (s', t')"
      by (auto simp: T_def N_def to_node_def fresh_result_def is_dir_node_def
          sorted_wrt_child_le_sort_children list_all_iff set_sort_children)
  qed (auto simp: T_def)
  then show ?thesis by (simp add: N_def)
qed


text \<open>
  Claim C6. \<^verbatim>\<open>_sort_children\<close> returns a permutation of its argument in the display order:
  the README files first, then the plain files, the hidden files, the plain directories
  and the hidden directories, the names ascending inside each group after the first
  (\<open>sorted_wrt child_le\<close>); and every directory node of a tree that \<^verbatim>\<open>_scan_directory\<close>
  returns has its children in that order.
\<close>

theorem sort_children_display_order:
  "mset (sort_children cs) = mset cs
   \<and> sorted_wrt child_le (sort_children cs)
   \<and> (scan_directory E q p seen_paths depth st = (ex, Some n, seen', st')
        \<longrightarrow> all_dirs_ordered n)"
  using mset_sort_children sorted_wrt_child_le_sort_children scan_ordered by blast

theorem sort_children_display_order_witness:
  "sort_children
     [DirNode ''lib'' 1 [] 1 0 [''repo'', ''lib''] False,
      FileNode ''.secret'' 1 ''s'' [''repo'', ''.secret''],
      FileNode ''a.txt'' 1 ''a'' [''repo'', ''a.txt''],
      FileNode ''README.md'' 1 ''r'' [''repo'', ''README.md'']]
   = [FileNode ''README.md'' 1 ''r'' [''repo'', ''README.md''],
      FileNode ''a.txt'' 1 ''a'' [''repo'', ''a.txt''],
      FileNode ''.secret'' 1 ''s'' [''repo'', ''.secret''],
      DirNode ''lib'' 1 [] 1 0 [''repo'', ''lib''] False]
   \<and> fst (snd (scan_directory (env_of fs_scenario) example_query [''repo''] {} 0 fresh_stats))
       = Some scenario_tree
   \<and> all_dirs_ordered scenario_tree
   \<and> map name (children scenario_tree) = [''README.md'', ''a.txt'', ''.secret'', ''lib'']"
proof -
  have "all_dirs_ordered scenario_tree"
    using sort_children_display_order[of "[]" "env_of fs_scenario" example_query "[''repo'']"
        "{}" 0 fresh_stats None scenario_tree] scan_scenario
    by simp
  moreover have "map name (children scenario_tree)
      = [''README.md'', ''a.txt'', ''.secret'', ''lib'']"
    by (simp add: scenario_tree_def)
  moreover have "sort_children
     [DirNode ''lib'' 1 [] 1 0 [''repo'', ''lib''] False,
      FileNode ''.secret'' 1 ''s'' [''repo'', ''.secret''],
      FileNode ''a.txt'' 1 ''a'' [''repo'', ''a.txt''],
      FileNode ''README.md'' 1 ''r'' [''repo'', ''README.md'']]
   = [FileNode ''README.md'' 1 ''r'' [''repo'', ''README.md''],
      FileNode ''a.txt'' 1 ''a'' [''repo'', ''a.txt''],
      FileNode ''.secret'' 1 ''s'' [''repo'', ''.secret''],
      DirNode ''lib'' 1 [] 1 0 [''repo'', ''lib''] False]"
    by (simp add: sort_children_def Let_def is_file_node_def is_dir_node_def lower_def
        lower_char_def startswith_dot_def)
  ultimately show ?thesis using scan_scenario by simp
qed

section \<open>Include patterns\<close>

text \<open>
  Claim C7. For an item that survives the exclusion test: a directory (not a symlink) is
  scanned recursively whether or not its own path matches an include pattern, and the
  scanned node is attached to the parent exactly when there are no include patterns or its
  \<^verbatim>\<open>file_count\<close> is positive; a file that matches none of the active include patterns
  creates no node and sets the \<^verbatim>\<open>ignore_content\<close> flag of the parent.
\<close>

theorem include_patterns_files_only:
  "(\<not> should_exclude E item base_path ign \<and> is_dir E item \<and> \<not> is_symlink E item
      \<longrightarrow> process_item E item q r seen_paths st depth ign base_path inc
          = (case scan_directory E q item seen_paths (depth + 1) st of
               (ex, None, seen', st') \<Rightarrow> (None, r, seen', st')
             | (ex, Some subdir, seen', st') \<Rightarrow>
                 if inc = [] \<or> file_count subdir > 0
                 then (None, attach_subdir r subdir, seen', st')
                 else (None, r, seen', st')))
   \<and> (\<not> should_exclude E item base_path ign \<and> is_file E item \<and> include_patterns q \<noteq> []
       \<and> \<not> should_include E item base_path inc
      \<longrightarrow> process_item E item q r seen_paths st depth ign base_path inc
          = (None, r\<lparr>r_ignore_content := True\<rparr>, seen_paths, st))"
proof (intro conjI impI)
  assume a: "\<not> should_exclude E item base_path ign \<and> is_dir E item \<and> \<not> is_symlink E item"
  obtain ex nd s' t' where sc:
    "scan_directory E q item seen_paths (depth + 1) st = (ex, nd, s', t')"
    by (metis prod_cases4)
  then have "ex = None" by (rule no_raise(1))
  with a sc show "process_item E item q r seen_paths st depth ign base_path inc
          = (case scan_directory E q item seen_paths (depth + 1) st of
               (ex, None, seen', st') \<Rightarrow> (None, r, seen', st')
             | (ex, Some subdir, seen', st') \<Rightarrow>
                 if inc = [] \<or> file_count subdir > 0
                 then (None, attach_subdir r subdir, seen', st')
                 else (None, r, seen', st'))"
    by (simp add: process_item_plain_dir attach_scanned_def split: option.splits)
next
  assume "\<not> should_exclude E item base_path ign \<and> is_file E item \<and> include_patterns q \<noteq> []
       \<and> \<not> should_include E item base_path inc"
  then show "process_item E item q r seen_paths st depth ign base_path inc
          = (None, r\<lparr>r_ignore_content := True\<rparr>, seen_paths, st)"
    by (subst process_item.simps) simp
qed


theorem include_patterns_files_only_witness:
  "\<not> should_include (env_of fs_include) [''repo'', ''lib''] [''repo''] [''*.py'']
   \<and> process_item (env_of fs_include) [''repo'', ''lib''] py_query (fresh_result [''repo''])
        {[''repo'']} fresh_stats 0 [] [''repo''] [''*.py'']
       = (None,
          attach_subdir (fresh_result [''repo''])
            (DirNode ''lib'' 1 [FileNode ''b.py'' 1 ''b'' [''repo'', ''lib'', ''b.py'']] 1 0
               [''repo'', ''lib''] False),
          {[''repo'', ''lib''], [''repo'']}, \<lparr>total_files = 1, total_size = 1\<rparr>)
   \<and> process_item (env_of fs_include) [''repo'', ''docs''] py_query (fresh_result [''repo''])
        {[''repo'']} fresh_stats 0 [] [''repo''] [''*.py'']
       = (None, fresh_result [''repo''], {[''repo'', ''docs''], [''repo'']}, fresh_stats)
   \<and> process_item (env_of fs_include) [''repo'', ''a.txt''] py_query (fresh_result [''repo''])
        {[''repo'']} fresh_stats 0 [] [''repo''] [''*.py'']
       = (None, (fresh_result [''repo''])\<lparr>r_ignore_content := True\<rparr>, {[''repo'']}, fresh_stats)
   \<and> fst (snd (scan_directory (env_of fs_include) py_query [''repo''] {} 0 fresh_stats))
       = Some include_tree
   \<and> ignore_content include_tree"
proof -
  let ?E = "env_of fs_include"
  have lib: "\<not> should_exclude ?E [''repo'', ''lib''] [''repo''] []"
    "is_dir ?E [''repo'', ''lib'']" "\<not> is_symlink ?E [''repo'', ''lib'']"
    "\<not> should_include ?E [''repo'', ''lib''] [''repo''] [''*.py'']"
    by (simp_all add: eval_simps fs_include_def)
  have docs: "\<not> should_exclude ?E [''repo'', ''docs''] [''repo''] []"
    "is_dir ?E [''repo'', ''docs'']" "\<not> is_symlink ?E [''repo'', ''docs'']"
    by (simp_all add: eval_simps fs_include_def)
  have plain: "\<not> should_exclude ?E [''repo'', ''a.txt''] [''repo''] []"
    "is_file ?E [''repo'', ''a.txt'']" "include_patterns py_query \<noteq> []"
    "\<not> should_include ?E [''repo'', ''a.txt''] [''repo''] [''*.py'']"
    by (simp_all add: eval_simps fs_include_def py_query_def)
  have sub1: "scan_directory ?E py_query [''repo'', ''lib''] {[''repo'']} (0 + 1) fresh_stats
      = (None,
         Some (DirNode ''lib'' 1 [FileNode ''b.py'' 1 ''b'' [''repo'', ''lib'', ''b.py'']] 1 0
            [''repo'', ''lib''] False),
         {[''repo'', ''lib''], [''repo'']}, \<lparr>total_files = 1, total_size = 1\<rparr>)"
    by (simp add: eval_simps py_query_def fs_include_def)
  have sub2: "scan_directory ?E py_query [''repo'', ''docs''] {[''repo'']} (0 + 1) fresh_stats
      = (None, Some (DirNode ''docs'' 0 [] 0 0 [''repo'', ''docs''] True),
         {[''repo'', ''docs''], [''repo'']}, fresh_stats)"
    by (simp add: eval_simps py_query_def fs_include_def)
  note a = include_patterns_files_only[of ?E "[''repo'', ''lib'']" "[''repo'']" "[]" py_query
      "fresh_result [''repo'']" "{[''repo'']}" fresh_stats 0 "[''*.py'']"]
  note b = include_patterns_files_only[of ?E "[''repo'', ''docs'']" "[''repo'']" "[]" py_query
      "fresh_result [''repo'']" "{[''repo'']}" fresh_stats 0 "[''*.py'']"]
  note c = include_patterns_files_only[of ?E "[''repo'', ''a.txt'']" "[''repo'']" "[]" py_query
      "fresh_result [''repo'']" "{[''repo'']}" fresh_stats 0 "[''*.py'']"]
  from a lib sub1 have p1: "process_item ?E [''repo'', ''lib''] py_query (fresh_result [''repo''])
        {[''repo'']} fresh_stats 0 [] [''repo''] [''*.py'']
       = (None,
          attach_subdir (fresh_result [''repo''])
            (DirNode ''lib'' 1 [FileNode ''b.py'' 1 ''b'' [''repo'', ''lib'', ''b.py'']] 1 0
               [''repo'', ''lib''] False),
          {[''repo'', ''lib''], [''repo'']}, \<lparr>total_files = 1, total_size = 1\<rparr>)"
    by simp
  from b docs sub2 have p2: "process_item ?E [''repo'', ''docs''] py_query
        (fresh_result [''repo'']) {[''repo'']} fresh_stats 0 [] [''repo''] [''*.py'']
       = (None, fresh_result [''repo''], {[''repo'', ''docs''], [''repo'']}, fresh_stats)"
    by simp
  from c plain have p3: "process_item ?E [''repo'', ''a.txt''] py_query (fresh_result [''repo''])
        {[''repo'']} fresh_stats 0 [] [''repo''] [''*.py'']
       = (None, (fresh_result [''repo''])\<lparr>r_ignore_content := True\<rparr>, {[''repo'']}, fresh_stats)"
    by simp
  have p4: "ignore_content include_tree" by (simp add: include_tree_def)
  from lib(4) p1 p2 p3 p4 scan_include show ?thesis by simp
qed

section \<open>Content classifier\<close>

text \<open>
  Claim C8, as the code has it. \<^verbatim>\<open>_is_text_file\<close> returns true exactly when the file can be
  read and every byte among its first 1024 bytes is in the allow-list of the code: bell (7),
  backspace (8), tab, newline, form feed, carriage return, escape, and every byte from 0x20
  to 0xFF. The allow-list of the specification lacks bell and backspace.
\<close>

theorem is_text_file_allow_list:
  "is_text_file E file_path \<longleftrightarrow>
     (\<exists>bs. read_bytes E file_path = Some bs
        \<and> (\<forall>b \<in> set (take 1024 bs). b = 7 \<or> b = 8 \<or> spec_allowed b))"
  by (auto simp: is_text_file_iff list_all_iff text_chars_iff spec_allowed_def)

theorem is_text_file_allow_list_witness:
  "is_text_file (env_of fs_bytes) [''repo'', ''bell.txt'']
   \<and> \<not> is_text_file (env_of fs_bytes) [''repo'', ''nul.bin'']"
  unfolding is_text_file_allow_list
  by (simp add: env_of_sel fs_bytes_def spec_allowed_def)

text \<open>
  Claim C8 as stated fails: a file holding a bell byte is classified as text, although the
  bell is outside the allow-list that the claim gives.
\<close>

theorem is_text_file_bell_counterexample:
  "read_bytes (env_of fs_bytes) [''repo'', ''bell.txt''] = Some [104, 7, 105]
   \<and> is_text_file (env_of fs_bytes) [''repo'', ''bell.txt'']
   \<and> \<not> list_all spec_allowed (take 1024 [104, 7, 105])"
  by (simp add: is_text_file_iff text_chars_iff env_of_sel fs_bytes_def spec_allowed_def)

section \<open>Content string\<close>

text \<open>
  Claim C9, as the code has it. For a tree whose file paths lie under \<^verbatim>\<open>local_path\<close>, as those
  of every scanned tree do, the extraction succeeds and the content string is the
  concatenation, in pre-order, of one block for every file node that is not binary-marked,
  not over the content-size ceiling and not empty of text; the block is the delimiter line
  of 48 equals signs, the \<^verbatim>\<open>File:\<close> line with the path relative to \<^verbatim>\<open>local_path\<close>, the
  delimiter line again, the text, and a blank line. The other files add nothing.
\<close>

theorem content_string_of_rendered_files:
  "(paths_under (local_path q) node
      \<longrightarrow> (\<exists>files. extract_files_content q node mfs [] = Inr files
             \<and> create_file_content_string files
                 = concat (map (file_block q)
                     (filter (code_rendered mfs) (preorder_files node)))))
   \<and> (prefix (local_path q) (npath f)
      \<longrightarrow> file_block q f
          = replicate 48 CHR ''='' @ newline
            @ ''File: '' @ rel_str (drop (length (local_path q)) (npath f)) @ newline
            @ replicate 48 CHR ''='' @ newline
            @ content f @ newline @ newline)"
proof (intro conjI impI)
  assume pu: "paths_under (local_path q) node"
  from extract_ok(1)[OF pu, of mfs "[]"] content_string_blocks[of "preorder_files node" q mfs]
    paths_under_preorder[OF pu]
  show "\<exists>files. extract_files_content q node mfs [] = Inr files
      \<and> create_file_content_string files
          = concat (map (file_block q) (filter (code_rendered mfs) (preorder_files node)))"
    by simp
next
  assume "prefix (local_path q) (npath f)"
  then show "file_block q f
          = replicate 48 CHR ''='' @ newline
            @ ''File: '' @ rel_str (drop (length (local_path q)) (npath f)) @ newline
            @ replicate 48 CHR ''='' @ newline
            @ content f @ newline @ newline"
    by (simp add: file_block_def relative_to_def separator_def)
qed

theorem content_string_of_rendered_files_witness:
  "paths_under (local_path example_query) scenario_tree
   \<and> (\<exists>files. extract_files_content example_query scenario_tree MAX_FILE_SIZE [] = Inr files
         \<and> create_file_content_string files
             = concat (map (file_block example_query)
                 [FileNode ''README.md'' 1 ''r'' [''repo'', ''README.md''],
                  FileNode ''a.txt'' 1 ''a'' [''repo'', ''a.txt''],
                  FileNode ''.secret'' 1 ''s'' [''repo'', ''.secret''],
                  FileNode ''b.py'' 1 ''p'' [''repo'', ''lib'', ''b.py'']]))
   \<and> file_block example_query (FileNode ''b.py'' 1 ''p'' [''repo'', ''lib'', ''b.py''])
       = replicate 48 CHR ''='' @ newline @ ''File: '' @ ''lib/b.py'' @ newline
         @ replicate 48 CHR ''='' @ newline @ ''p'' @ newline @ newline"
proof -
  have pu: "paths_under (local_path example_query) scenario_tree"
    by (simp add: scenario_tree_def example_query_def)
  have fl: "filter (code_rendered MAX_FILE_SIZE) (preorder_files scenario_tree)
      = [FileNode ''README.md'' 1 ''r'' [''repo'', ''README.md''],
         FileNode ''a.txt'' 1 ''a'' [''repo'', ''a.txt''],
         FileNode ''.secret'' 1 ''s'' [''repo'', ''.secret''],
         FileNode ''b.py'' 1 ''p'' [''repo'', ''lib'', ''b.py'']]"
    by (simp add: scenario_tree_def code_rendered_def spec_rendered_def MAX_FILE_SIZE_def)
  have pf: "prefix (local_path example_query)
      (npath (FileNode ''b.py'' 1 ''p'' [''repo'', ''lib'', ''b.py'']))"
    by (simp add: example_query_def)
  note a = content_string_of_rendered_files[of example_query scenario_tree MAX_FILE_SIZE
      "FileNode ''b.py'' 1 ''p'' [''repo'', ''lib'', ''b.py'']"]
  from a pu pf have "(\<exists>files. extract_files_content example_query scenario_tree MAX_FILE_SIZE []
          = Inr files
        \<and> create_file_content_string files
            = concat (map (file_block example_query)
                (filter (code_rendered MAX_FILE_SIZE) (preorder_files scenario_tree))))
      \<and> file_block example_query (FileNode ''b.py'' 1 ''p'' [''repo'', ''lib'', ''b.py''])
       = replicate 48 CHR ''='' @ newline
            @ ''File: '' @ rel_str (drop (length (local_path example_query))
                 (npath (FileNode ''b.py'' 1 ''p'' [''repo'', ''lib'', ''b.py''])))
            @ newline @ replicate 48 CHR ''='' @ newline
            @ content (FileNode ''b.py'' 1 ''p'' [''repo'', ''lib'', ''b.py''])
            @ newline @ newline"
    by blast
  moreover have "rel_str (drop (length (local_path example_query))
      (npath (FileNode ''b.py'' 1 ''p'' [''repo'', ''lib'', ''b.py'']))) = ''lib/b.py''"
    by (simp add: rel_str_def example_query_def)
  ultimately show ?thesis
    using pu by (simp only: fl node.sel simp_thms)
qed

text \<open>
  Claim C9 as stated fails: an empty text file is neither binary-marked nor over the
  content-size ceiling, and it has no block in the content string.
\<close>

theorem empty_file_not_rendered_counterexample:
  "scan_directory (env_of fs_empty_file) example_query [''repo''] {} 0 fresh_stats
     = (None, Some empty_file_tree, {[''repo'']}, \<lparr>total_files = 1, total_size = 0\<rparr>)
   \<and> filter (spec_rendered MAX_FILE_SIZE) (preorder_files empty_file_tree)
       = [FileNode ''empty.txt'' 0 [] [''repo'', ''empty.txt'']]
   \<and> extract_files_content example_query empty_file_tree MAX_FILE_SIZE []
       = Inr [\<lparr>fi_path = ''empty.txt'', fi_content = Some [], fi_size = 0\<rparr>]
   \<and> create_file_content_string
         [\<lparr>fi_path = ''empty.txt'', fi_content = Some [], fi_size = 0\<rparr>] = []"
proof -
  have "scan_directory (env_of fs_empty_file) example_query [''repo''] {} 0 fresh_stats
     = (None, Some empty_file_tree, {[''repo'']}, \<lparr>total_files = 1, total_size = 0\<rparr>)"
    by (simp add: eval_simps fs_empty_file_def empty_file_tree_def)
  moreover have "filter (spec_rendered MAX_FILE_SIZE) (preorder_files empty_file_tree)
       = [FileNode ''empty.txt'' 0 [] [''repo'', ''empty.txt'']]"
    by (simp add: empty_file_tree_def spec_rendered_def)
  moreover have "extract_files_content example_query empty_file_tree MAX_FILE_SIZE []
       = Inr [\<lparr>fi_path = ''empty.txt'', fi_content = Some [], fi_size = 0\<rparr>]"
    by (simp add: empty_file_tree_def example_query_def relative_to_def rel_str_def Let_def)
  moreover have "create_file_content_string
         [\<lparr>fi_path = ''empty.txt'', fi_content = Some [], fi_size = 0\<rparr>] = []"
    by (simp add: create_file_content_string_def content_falsy_def)
  ultimately show ?thesis by simp
qed

section \<open>Directory entry point\<close>

text \<open>
  Claim C10. \<^verbatim>\<open>_ingest_directory\<close> never raises its "No files found" error: the scan of the
  root with a fresh visited set and fresh statistics always returns a directory node, and
  for a directory target the three strings are returned.

  Whenever the tree scanned from a directory target has \<^verbatim>\<open>file_count\<close> 0, because the
  directory is empty or because every file in it, at whatever depth, is filtered out, the
  tree holds no file node, the summary reports 0 files analyzed, the tree diagram consists
  of the lines of directories alone, and the content string is empty. When the directory
  has no items, or every item is excluded or is a file that fails the active include
  patterns, the tree diagram is the line of the root alone.
\<close>

theorem ingest_directory_never_no_files:
  "ingest_directory E p q \<noteq> Inl NoFilesFound
   \<and> (is_dir E p
      \<longrightarrow> (\<exists>n seen' st'. scan_directory E q p {} 0 fresh_stats = (None, Some n, seen', st'))
          \<and> (\<exists>summary tree files_content.
                ingest_directory E p q = Inr (summary, tree, files_content)))
   \<and> (is_dir E p \<and> scan_directory E q p {} 0 fresh_stats = (ex, Some n, seen', st')
       \<and> file_count n = 0
      \<longrightarrow> preorder_files n = []
          \<and> (\<exists>pre post.
                ingest_directory E p q
                  = Inr (pre @ ''Files analyzed: 0'' @ newline @ post,
                         ''Directory structure:'' @ newline @ directory_lines q n [] True,
                         [])))
   \<and> (is_dir E p
       \<and> (case iterdir E p of
             None \<Rightarrow> True
           | Some items \<Rightarrow>
               list_all (\<lambda>item. should_exclude E item (local_path q) (ignore_patterns q)
                 \<or> (is_file E item \<and> include_patterns q \<noteq> []
                     \<and> \<not> should_include E item (local_path q) (include_patterns q))) items)
      \<longrightarrow> (\<exists>pre post.
            ingest_directory E p q
              = Inr (pre @ ''Files analyzed: 0'' @ newline @ post,
                     ''Directory structure:'' @ newline
                       @ (let nm = (if path_name p = [] then slug q else path_name p)
                          in if nm \<noteq> [] then conn_last @ nm @ ''/'' @ newline else []),
                     [])))"
proof (intro conjI impI)
  from ingest_directory_ok[of E q p]
  show "ingest_directory E p q \<noteq> Inl NoFilesFound" by auto
  from ingest_directory_ok[of E q p]
  show "\<exists>n seen' st'. scan_directory E q p {} 0 fresh_stats = (None, Some n, seen', st')"
    by blast
  from ingest_directory_ok[of E q p]
  show "\<exists>summary tree files_content.
      ingest_directory E p q = Inr (summary, tree, files_content)"
    by blast
next
  assume a: "is_dir E p \<and> scan_directory E q p {} 0 fresh_stats = (ex, Some n, seen', st')
       \<and> file_count n = 0"
  then have sc0: "scan_directory E q p {} 0 fresh_stats = (ex, Some n, seen', st')" by simp
  then have "ex = None" by (rule no_raise(1))
  with sc0 have sc: "scan_directory E q p {} 0 fresh_stats = (None, Some n, seen', st')"
    by simp
  from scan_exact_count[OF sc] a have cf: "count_files n = 0" by simp
  then show nf: "preorder_files n = []" by (rule no_files_preorder)
  from scan_paths_under[OF sc] have pu: "paths_under (local_path q) n" by simp
  have ex: "extract_files_content q n (max_file_size q) [] = Inr []"
    using extract_ok(1)[OF pu, of "max_file_size q" "[]"] by (simp add: nf)
  let ?tree = "''Directory structure:'' @ newline @ directory_lines q n [] True"
  obtain pre post0 where sm: "create_summary_string q n
      = pre @ ''Files analyzed: 0'' @ newline @ post0"
    using summary_shape[of q n] a by (auto simp: str_nat_zero)
  have tr: "''Directory structure:'' @ newline @ create_tree_structure q n [] True = ?tree"
    by (simp only: tree_without_files(1)[OF cf])
  let ?tok = "generate_token_string E ?tree"
  let ?post = "if truthy ?tok then post0 @ newline @ ''Estimated tokens: '' @ the ?tok
      else post0"
  have "ingest_directory E p q
      = Inr (pre @ ''Files analyzed: 0'' @ newline @ ?post, ?tree, [])"
    using sc ex sm tr
    by (simp add: ingest_directory_def create_file_content_string_def Let_def
        del: create_tree_structure.simps directory_lines.simps)
  then show "\<exists>pre post. ingest_directory E p q
      = Inr (pre @ ''Files analyzed: 0'' @ newline @ post, ?tree, [])"
    by blast
next
  assume "is_dir E p
       \<and> (case iterdir E p of
             None \<Rightarrow> True
           | Some items \<Rightarrow>
               list_all (\<lambda>item. should_exclude E item (local_path q) (ignore_patterns q)
                 \<or> (is_file E item \<and> include_patterns q \<noteq> []
                     \<and> \<not> should_include E item (local_path q) (include_patterns q))) items)"
  then obtain ic where sc: "scan_directory E q p {} 0 fresh_stats
      = (None, Some (DirNode (path_name p) 0 [] 0 0 p ic), {resolve E p}, fresh_stats)"
    using scan_filtered[where E = E and p = p and q = q] by blast
  let ?n = "DirNode (path_name p) 0 [] 0 0 p ic"
  let ?tree = "''Directory structure:'' @ newline
      @ (let nm = (if path_name p = [] then slug q else path_name p)
         in if nm \<noteq> [] then conn_last @ nm @ ''/'' @ newline else [])"
  obtain pre post0 where sm: "create_summary_string q ?n
      = pre @ ''Files analyzed: 0'' @ newline @ post0"
    using summary_shape[of q ?n] by (auto simp: str_nat_zero)
  have tr: "''Directory structure:'' @ newline @ create_tree_structure q ?n [] True = ?tree"
    by (simp add: Let_def)
  let ?tok = "generate_token_string E ?tree"
  let ?post = "if truthy ?tok then post0 @ newline @ ''Estimated tokens: '' @ the ?tok
      else post0"
  have "ingest_directory E p q
      = Inr (pre @ ''Files analyzed: 0'' @ newline @ ?post, ?tree, [])"
    using sc sm tr
    by (simp add: ingest_directory_def create_file_content_string_def Let_def
        del: create_tree_structure.simps)
  then show "\<exists>pre post. ingest_directory E p q
      = Inr (pre @ ''Files analyzed: 0'' @ newline @ post, ?tree, [])"
    by blast
qed

text \<open>
  Four directory targets without an analysed file: an empty directory; a directory whose
  files \<^verbatim>\<open>a.txt\<close> and \<^verbatim>\<open>docs/c.txt\<close> all fail the include pattern \<^verbatim>\<open>*.py\<close>; the same
  directory with \<^verbatim>\<open>docs\<close> excluded as well; and a directory that holds an empty
  subdirectory, which the diagram shows.
\<close>

theorem ingest_directory_never_no_files_witness:
  "is_dir (env_of fs_empty_dir) [''repo'']
   \<and> iterdir (env_of fs_empty_dir) [''repo''] = Some []
   \<and> ingest_directory (env_of fs_empty_dir) [''repo''] example_query \<noteq> Inl NoFilesFound
   \<and> (\<exists>pre post.
         ingest_directory (env_of fs_empty_dir) [''repo''] example_query
           = Inr (pre @ ''Files analyzed: 0'' @ newline @ post,
                  ''Directory structure:'' @ newline @ conn_last @ ''repo'' @ ''/'' @ newline,
                  []))
   \<and> is_dir (env_of fs_filtered) [''repo'']
   \<and> scan_directory (env_of fs_filtered) py_query [''repo''] {} 0 fresh_stats
       = (None, Some (DirNode ''repo'' 0 [] 0 0 [''repo''] True),
          {[''repo'', ''docs''], [''repo'']}, fresh_stats)
   \<and> (\<exists>pre post.
         ingest_directory (env_of fs_filtered) [''repo''] py_query
           = Inr (pre @ ''Files analyzed: 0'' @ newline @ post,
                  ''Directory structure:'' @ newline @ conn_last @ ''repo'' @ ''/'' @ newline,
                  []))
   \<and> (\<exists>pre post.
         ingest_directory (env_of fs_filtered) [''repo''] docs_query
           = Inr (pre @ ''Files analyzed: 0'' @ newline @ post,
                  ''Directory structure:'' @ newline @ conn_last @ ''repo'' @ ''/'' @ newline,
                  []))
   \<and> is_dir (env_of fs_empty_sub) [''repo'']
   \<and> (\<exists>pre post.
         ingest_directory (env_of fs_empty_sub) [''repo''] example_query
           = Inr (pre @ ''Files analyzed: 0'' @ newline @ post,
                  ''Directory structure:'' @ newline @ conn_last @ ''repo'' @ ''/'' @ newline
                    @ ''    '' @ conn_last @ ''sub'' @ ''/'' @ newline,
                  []))"
proof -
  let ?E = "env_of fs_empty_dir"
  let ?F = "env_of fs_filtered"
  let ?S = "env_of fs_empty_sub"
  have d: "is_dir ?E [''repo'']" "iterdir ?E [''repo''] = Some []"
    by (simp_all add: is_dir_def iterdir_def env_of_sel fs_empty_dir_def)
  note a = ingest_directory_never_no_files[where E = ?E and p = "[''repo'']"
      and q = example_query]
  from a have e1: "ingest_directory ?E [''repo''] example_query \<noteq> Inl NoFilesFound"
    by blast
  from a d have "\<exists>pre post.
         ingest_directory ?E [''repo''] example_query
           = Inr (pre @ ''Files analyzed: 0'' @ newline @ post,
                  ''Directory structure:'' @ newline
                       @ (let nm = (if path_name [''repo''] = [] then slug example_query
                                    else path_name [''repo''])
                          in if nm \<noteq> [] then conn_last @ nm @ ''/'' @ newline else []),
                  [])"
    by simp
  then have e2: "\<exists>pre post.
         ingest_directory ?E [''repo''] example_query
           = Inr (pre @ ''Files analyzed: 0'' @ newline @ post,
                  ''Directory structure:'' @ newline @ conn_last @ ''repo'' @ ''/'' @ newline,
                  [])"
    by (simp add: path_name_def)
  have f: "is_dir ?F [''repo'']"
    by (simp add: is_dir_def env_of_sel fs_filtered_def)
  let ?n = "DirNode ''repo'' 0 [] 0 0 [''repo''] True"
  note b = ingest_directory_never_no_files[where E = ?F and p = "[''repo'']"
      and q = py_query and ex = None and n = ?n
      and seen' = "{[''repo'', ''docs''], [''repo'']}" and st' = fresh_stats,
      THEN conjunct2, THEN conjunct2, THEN conjunct1]
  from b f scan_filtered_nested
  have "\<exists>pre post.
         ingest_directory ?F [''repo''] py_query
           = Inr (pre @ ''Files analyzed: 0'' @ newline @ post,
                  ''Directory structure:'' @ newline @ directory_lines py_query ?n [] True,
                  [])"
    by simp
  then have f1: "\<exists>pre post.
         ingest_directory ?F [''repo''] py_query
           = Inr (pre @ ''Files analyzed: 0'' @ newline @ post,
                  ''Directory structure:'' @ newline @ conn_last @ ''repo'' @ ''/'' @ newline,
                  [])"
    by simp
  have filt: "case iterdir ?F [''repo''] of
        None \<Rightarrow> True
      | Some items \<Rightarrow>
          list_all (\<lambda>item. should_exclude ?F item (local_path docs_query)
                (ignore_patterns docs_query)
              \<or> (is_file ?F item \<and> include_patterns docs_query \<noteq> []
                  \<and> \<not> should_include ?F item (local_path docs_query)
                        (include_patterns docs_query)))
            items"
    by (simp add: eval_simps fs_filtered_def docs_query_def py_query_def)
  note c = ingest_directory_never_no_files[where E = ?F and p = "[''repo'']"
      and q = docs_query, THEN conjunct2, THEN conjunct2, THEN conjunct2]
  from c f filt
  have "\<exists>pre post.
         ingest_directory ?F [''repo''] docs_query
           = Inr (pre @ ''Files analyzed: 0'' @ newline @ post,
                  ''Directory structure:'' @ newline
                       @ (let nm = (if path_name [''repo''] = [] then slug docs_query
                                    else path_name [''repo''])
                          in if nm \<noteq> [] then conn_last @ nm @ ''/'' @ newline else []),
                  [])"
    by blast
  then have f2: "\<exists>pre post.
         ingest_directory ?F [''repo''] docs_query
           = Inr (pre @ ''Files analyzed: 0'' @ newline @ post,
                  ''Directory structure:'' @ newline @ conn_last @ ''repo'' @ ''/'' @ newline,
                  [])"
    by (simp add: path_name_def)
  have s: "is_dir ?S [''repo'']"
    by (simp add: is_dir_def env_of_sel fs_empty_sub_def)
  let ?m = "DirNode ''repo'' 0 [DirNode ''sub'' 0 [] 0 0 [''repo'', ''sub''] False] 0 1
      [''repo''] False"
  note e = ingest_directory_never_no_files[where E = ?S and p = "[''repo'']"
      and q = example_query and ex = None and n = ?m
      and seen' = "{[''repo'', ''sub''], [''repo'']}" and st' = fresh_stats,
      THEN conjunct2, THEN conjunct2, THEN conjunct1]
  from e s scan_empty_sub
  have "\<exists>pre post.
         ingest_directory ?S [''repo''] example_query
           = Inr (pre @ ''Files analyzed: 0'' @ newline @ post,
                  ''Directory structure:'' @ newline
                    @ directory_lines example_query ?m [] True,
                  [])"
    by simp
  then have s1: "\<exists>pre post.
         ingest_directory ?S [''repo''] example_query
           = Inr (pre @ ''Files analyzed: 0'' @ newline @ post,
                  ''Directory structure:'' @ newline @ conn_last @ ''repo'' @ ''/'' @ newline
                    @ ''    '' @ conn_last @ ''sub'' @ ''/'' @ newline,
                  [])"
    by simp
  from d e1 e2 f scan_filtered_nested f1 f2 s s1 show ?thesis by simp
qed

end
